theory Spec2Isabelle
  imports Main "HOL-Library.Word" "HOL-Library.List_Lexorder" "HOL-Library.AList"
begin

unbundle bit_operations_syntax

text \<open>
  A model of \<open>update-and-sync-ios.py\<close>: the script scans six category directories
  for PDF files, writes a catalog of them to \<open>pdf-index.json\<close>, commits and pushes the
  working tree with \<open>git\<close>, logs a notification for the iOS application and writes
  a webhook configuration. Each function of the script is a function here, from the
  world it reads to its result and the events it causes; an exception is a result
  \<open>Inl e\<close>. The library functions the script calls (\<open>str.encode\<close>, \<open>hashlib.md5\<close>,
  \<open>urllib.parse.quote\<close>, \<open>pathlib\<close>, \<open>str.strip\<close>) are modelled as CPython on POSIX
  defines them.
\<close>

section \<open>Python strings and bytes\<close>

text \<open>
  A Python \<open>str\<close> is a sequence of Unicode code points, compared lexicographically by
  code point; it is modelled as a list of naturals with the lexicographic order on lists.
  A \<open>bytes\<close> value is a list of 8-bit words. An ASCII literal of the source is written
  \<open>ustr ''...''\<close>.
\<close>

type_synonym ustring = "nat list"
type_synonym byte = "8 word"
type_synonym u32 = "32 word"

definition ustr :: "string \<Rightarrow> ustring" where
  "ustr s = map of_char s"

datatype py_error =
    UnicodeEncodeError
  | OSError
  | GitException ustring

text \<open>
  \<open>str.encode()\<close>: UTF-8 with the \<open>strict\<close> error handler. A surrogate code point
  (which \<open>os.scandir\<close> produces for a file name that is not valid UTF-8) raises
  \<open>UnicodeEncodeError\<close>. Values from \<open>0x110000\<close> on are not code points of a Python
  string at all; the model lets them fail the same way.
\<close>

definition utf8_char :: "nat \<Rightarrow> byte list option" where
  "utf8_char c =
     (if c < 0x80 then Some [of_nat c]
      else if c < 0x800 then Some [of_nat (0xC0 + c div 64), of_nat (0x80 + c mod 64)]
      else if c < 0x10000 then
        (if 0xD800 \<le> c \<and> c \<le> 0xDFFF then None
         else Some [of_nat (0xE0 + c div 4096), of_nat (0x80 + (c div 64) mod 64),
                    of_nat (0x80 + c mod 64)])
      else if c < 0x110000 then
        Some [of_nat (0xF0 + c div 262144), of_nat (0x80 + (c div 4096) mod 64),
              of_nat (0x80 + (c div 64) mod 64), of_nat (0x80 + c mod 64)]
      else None)"

fun encode :: "ustring \<Rightarrow> py_error + byte list" where
  "encode [] = Inr []"
| "encode (c # cs) =
     (case utf8_char c of
        None \<Rightarrow> Inl UnicodeEncodeError
      | Some bs \<Rightarrow> (case encode cs of Inl e \<Rightarrow> Inl e | Inr rest \<Rightarrow> Inr (bs @ rest)))"

section \<open>hashlib.md5\<close>

text \<open>
  The digest of RFC 1321: the message is padded to a multiple of 64 bytes, each block of
  sixteen little-endian 32-bit words updates four 32-bit registers in 64 steps, and the
  registers are written out little-endian. \<open>hexdigest\<close> prints the sixteen bytes as
  lower-case hexadecimal.
\<close>

definition md5_K :: "u32 list" where
  "md5_K =
    [0xd76aa478, 0xe8c7b756, 0x242070db, 0xc1bdceee, 0xf57c0faf, 0x4787c62a, 0xa8304613, 0xfd469501,
     0x698098d8, 0x8b44f7af, 0xffff5bb1, 0x895cd7be, 0x6b901122, 0xfd987193, 0xa679438e, 0x49b40821,
     0xf61e2562, 0xc040b340, 0x265e5a51, 0xe9b6c7aa, 0xd62f105d, 0x02441453, 0xd8a1e681, 0xe7d3fbc8,
     0x21e1cde6, 0xc33707d6, 0xf4d50d87, 0x455a14ed, 0xa9e3e905, 0xfcefa3f8, 0x676f02d9, 0x8d2a4c8a,
     0xfffa3942, 0x8771f681, 0x6d9d6122, 0xfde5380c, 0xa4beea44, 0x4bdecfa9, 0xf6bb4b60, 0xbebfbc70,
     0x289b7ec6, 0xeaa127fa, 0xd4ef3085, 0x04881d05, 0xd9d4d039, 0xe6db99e5, 0x1fa27cf8, 0xc4ac5665,
     0xf4292244, 0x432aff97, 0xab9423a7, 0xfc93a039, 0x655b59c3, 0x8f0ccc92, 0xffeff47d, 0x85845dd1,
     0x6fa87e4f, 0xfe2ce6e0, 0xa3014314, 0x4e0811a1, 0xf7537e82, 0xbd3af235, 0x2ad7d2bb, 0xeb86d391]"

definition md5_s :: "nat list" where
  "md5_s =
    [7, 12, 17, 22, 7, 12, 17, 22, 7, 12, 17, 22, 7, 12, 17, 22,
     5, 9, 14, 20, 5, 9, 14, 20, 5, 9, 14, 20, 5, 9, 14, 20,
     4, 11, 16, 23, 4, 11, 16, 23, 4, 11, 16, 23, 4, 11, 16, 23,
     6, 10, 15, 21, 6, 10, 15, 21, 6, 10, 15, 21, 6, 10, 15, 21]"

definition md5_F :: "nat \<Rightarrow> u32 \<Rightarrow> u32 \<Rightarrow> u32 \<Rightarrow> u32" where
  "md5_F i B C D =
     (if i < 16 then (B AND C) OR (NOT B AND D)
      else if i < 32 then (D AND B) OR (NOT D AND C)
      else if i < 48 then B XOR C XOR D
      else C XOR (B OR NOT D))"

definition md5_g :: "nat \<Rightarrow> nat" where
  "md5_g i =
     (if i < 16 then i
      else if i < 32 then (5 * i + 1) mod 16
      else if i < 48 then (3 * i + 5) mod 16
      else (7 * i) mod 16)"

type_synonym md5_state = "u32 \<times> u32 \<times> u32 \<times> u32"

fun md5_step :: "u32 list \<Rightarrow> md5_state \<Rightarrow> nat \<Rightarrow> md5_state" where
  "md5_step M (A, B, C, D) i =
     (let F = md5_F i B C D + A + md5_K ! i + M ! md5_g i
      in (D, B + word_rotl (md5_s ! i) F, B, C))"

definition le_word32 :: "byte list \<Rightarrow> u32" where
  "le_word32 bs = foldr (\<lambda>b w. ucast b + push_bit 8 w) bs 0"

definition le_bytes32 :: "u32 \<Rightarrow> byte list" where
  "le_bytes32 w = [ucast w, ucast (drop_bit 8 w), ucast (drop_bit 16 w), ucast (drop_bit 24 w)]"

definition le_bytes64 :: "64 word \<Rightarrow> byte list" where
  "le_bytes64 w = map (\<lambda>k. ucast (drop_bit (8 * k) w)) [0..<8]"

definition md5_words :: "byte list \<Rightarrow> u32 list" where
  "md5_words blk = map (\<lambda>j. le_word32 (take 4 (drop (4 * j) blk))) [0..<16]"

fun md5_block :: "md5_state \<Rightarrow> byte list \<Rightarrow> md5_state" where
  "md5_block (a0, b0, c0, d0) blk =
     (case foldl (md5_step (md5_words blk)) (a0, b0, c0, d0) [0..<64] of
        (A, B, C, D) \<Rightarrow> (a0 + A, b0 + B, c0 + C, d0 + D))"

definition md5_pad :: "byte list \<Rightarrow> byte list" where
  "md5_pad m =
     m @ [0x80] @ replicate (nat ((55 - int (length m)) mod 64)) 0
       @ le_bytes64 (of_nat (8 * length m))"

function chunks :: "nat \<Rightarrow> 'a list \<Rightarrow> 'a list list" where
  "chunks n xs = (if n = 0 \<or> xs = [] then [] else take n xs # chunks n (drop n xs))"
  by pat_completeness auto
termination
  by (relation "measure (\<lambda>(n, xs). length xs)") auto

declare chunks.simps [simp del]

definition md5_init :: md5_state where
  "md5_init = (0x67452301, 0xefcdab89, 0x98badcfe, 0x10325476)"

definition md5_digest :: "byte list \<Rightarrow> byte list" where
  "md5_digest m =
     (case foldl md5_block md5_init (chunks 64 (md5_pad m)) of
        (a, b, c, d) \<Rightarrow> concat (map le_bytes32 [a, b, c, d]))"

definition hex_lower :: "nat \<Rightarrow> nat" where
  "hex_lower n = ustr ''0123456789abcdef'' ! (n mod 16)"

definition hex_upper :: "nat \<Rightarrow> nat" where
  "hex_upper n = ustr ''0123456789ABCDEF'' ! (n mod 16)"

definition hex_byte :: "byte \<Rightarrow> ustring" where
  "hex_byte b = [hex_lower (unat b div 16), hex_lower (unat b mod 16)]"

definition md5_hexdigest :: "byte list \<Rightarrow> ustring" where
  "md5_hexdigest m = concat (map hex_byte (md5_digest m))"

section \<open>urllib.parse.quote\<close>

text \<open>
  \<open>quote(s)\<close> with its default arguments encodes \<open>s\<close> as UTF-8 (strict) and replaces
  every byte that is not an ASCII letter, a digit or one of \<open>_ . - ~ /\<close> by \<open>%XX\<close>
  with upper-case hexadecimal digits.
\<close>

definition always_safe :: "byte \<Rightarrow> bool" where
  "always_safe b =
     (let n = unat b in
        (0x41 \<le> n \<and> n \<le> 0x5A) \<or> (0x61 \<le> n \<and> n \<le> 0x7A) \<or> (0x30 \<le> n \<and> n \<le> 0x39)
        \<or> n = 0x5F \<or> n = 0x2E \<or> n = 0x2D \<or> n = 0x7E)"

definition quote_byte :: "byte \<Rightarrow> ustring" where
  "quote_byte b =
     (if always_safe b \<or> unat b = 0x2F then [unat b]
      else [0x25, hex_upper (unat b div 16), hex_upper (unat b mod 16)])"

definition quote :: "ustring \<Rightarrow> py_error + ustring" where
  "quote s = (case encode s of Inl e \<Rightarrow> Inl e | Inr bs \<Rightarrow> Inr (concat (map quote_byte bs)))"

section \<open>Configuration\<close>

definition GITHUB_USERNAME :: ustring where
  "GITHUB_USERNAME = ustr ''jarlesteinnes-bot''"

definition REPO_NAME :: ustring where
  "REPO_NAME = ustr ''bntf-union-documents''"

definition BASE_URL :: ustring where
  "BASE_URL = ustr ''https://raw.githubusercontent.com/'' @ GITHUB_USERNAME @ ustr ''/''
                @ REPO_NAME @ ustr ''/main''"

text \<open>The third category is \<open>s\<ae>ravtale_bntf\<close>; \<open>0xE6\<close> is the code point of \<open>\<ae>\<close>.\<close>

definition saeravtale_bntf :: ustring where
  "saeravtale_bntf = ustr ''s'' @ [0xE6] @ ustr ''ravtale_bntf''"

definition CATEGORIES :: "ustring list" where
  "CATEGORIES =
     [ustr ''protokoller'', ustr ''vedtekter'', saeravtale_bntf,
      ustr ''hovedavtalen'', ustr ''overenskomsten'', ustr ''other'']"

definition IOS_UPDATE_EVENT_TYPE :: ustring where
  "IOS_UPDATE_EVENT_TYPE = ustr ''document_update''"

text \<open>
  A Python \<open>dict\<close> is an association list in insertion order; \<open>d[k] = v\<close> is
  \<open>AList.update k v d\<close> (an existing key keeps its place, a new one goes to the end) and
  \<open>d.get(k, default)\<close> is \<open>dict_get\<close>.
\<close>

definition dict_get :: "('k \<times> 'v) list \<Rightarrow> 'k \<Rightarrow> 'v \<Rightarrow> 'v" where
  "dict_get d k dflt = (case map_of d k of None \<Rightarrow> dflt | Some v \<Rightarrow> v)"

definition CATEGORY_DISPLAY_NAMES :: "(ustring \<times> ustring) list" where
  "CATEGORY_DISPLAY_NAMES =
     [(ustr ''protokoller'', ustr ''Protokoller''),
      (ustr ''vedtekter'', ustr ''Vedtekter''),
      (saeravtale_bntf, ustr ''S'' @ [0xE6] @ ustr ''ravtale BNTF''),
      (ustr ''hovedavtalen'', ustr ''Hovedavtalen YS/NHO''),
      (ustr ''overenskomsten'', ustr ''Overenskomsten''),
      (ustr ''other'', ustr ''Other'')]"

definition CATEGORY_ICONS :: "(ustring \<times> ustring) list" where
  "CATEGORY_ICONS =
     [(ustr ''protokoller'', [0x1F4CB]),
      (ustr ''vedtekter'', [0x1F4DC]),
      (saeravtale_bntf, [0x1F681]),
      (ustr ''hovedavtalen'', [0x1F3E2]),
      (ustr ''overenskomsten'', [0x1F4C4]),
      (ustr ''other'', [0x1F4C1])]"

section \<open>Data model\<close>

text \<open>
  The dictionaries with fixed keys are records. Where two of them share a key, or a key
  is the name of a constant of HOL (\<open>id\<close>, \<open>size\<close>), the field carries the prefix of its
  record: \<open>info_size\<close> is \<open>file_info['size']\<close>, \<open>doc_size\<close> is \<open>document['size']\<close>.
\<close>

record file_info =
  info_size :: int
  info_modified :: ustring
  info_hash :: ustring

record document =
  doc_id :: ustring
  doc_name :: ustring
  doc_filename :: ustring
  doc_url :: ustring
  doc_category :: ustring
  doc_categoryDisplayName :: ustring
  doc_icon :: ustring
  doc_size :: int
  doc_modified :: ustring
  doc_hash :: ustring

record stats =
  totalDocuments :: int
  totalSize :: int
  categoryCounts :: "(ustring \<times> int) list"

record pdf_index =
  lastUpdated :: ustring
  baseUrl :: ustring
  version :: ustring
  categories :: "(ustring \<times> ustring) list"
  categoryIcons :: "(ustring \<times> ustring) list"
  documents :: "(ustring \<times> document list) list"
  statistics :: stats

record client_payload =
  payload_timestamp :: ustring
  payload_totalDocuments :: int
  payload_categoryCounts :: "(ustring \<times> int) list"
  payload_updatedCategories :: "ustring list"
  payload_specialUpdate :: ustring
  payload_indexUrl :: ustring
  payload_version :: ustring

record payload =
  event_type :: ustring
  client_payload :: client_payload

record webhook =
  wh_name :: ustring
  wh_description :: ustring
  wh_events :: "ustring list"
  wh_config :: "(ustring \<times> ustring) list"
  wh_triggers :: "(ustring \<times> bool) list"
  wh_actions :: "ustring list"

section \<open>The world outside the process\<close>

text \<open>
  A \<open>pathlib\<close> path is the list of its parts; POSIX paths compare by their parts, each
  part as a string. The file system, the clock and the \<open>git\<close> executable are read
  through the fields of \<open>world\<close>:
  \<^item> \<open>os_stat p\<close> is \<open>None\<close> where \<open>os.stat\<close> raises; \<open>st_mtime_iso\<close> is the result of
    \<open>datetime.fromtimestamp(st_mtime, tz=timezone.utc).isoformat()\<close>, \<open>None\<close> where
    that raises;
  \<^item> \<open>read_bytes p\<close> is the result of \<open>open(p, 'rb').read()\<close>, \<open>None\<close> where it raises;
  \<^item> \<open>scandir p\<close> lists the entry names of directory \<open>p\<close>, in the order of the
    operating system;
  \<^item> \<open>can_write f\<close> tells whether file \<open>f\<close> can be opened for writing and written;
  \<^item> \<open>subprocess_run h argv\<close> is the result of \<open>subprocess.run(argv, capture_output=True,
    text=True)\<close> after the commands \<open>h\<close> have run, \<open>None\<close> where it raises;
  \<^item> \<open>utcnow_stamp\<close>, \<open>now_minute\<close> and \<open>utcnow_iso\<close> are the formatted readings of the
    clock taken for the catalog, the commit message and the notification.
\<close>

type_synonym path = "ustring list"

record stat_result =
  st_size :: int
  st_mtime_iso :: "ustring option"

record completed_process =
  returncode :: int
  stdout :: ustring
  stderr :: ustring

record world =
  path_exists :: "path \<Rightarrow> bool"
  path_is_dir :: "path \<Rightarrow> bool"
  scandir :: "path \<Rightarrow> ustring list"
  os_stat :: "path \<Rightarrow> stat_result option"
  read_bytes :: "path \<Rightarrow> byte list option"
  can_write :: "ustring \<Rightarrow> bool"
  subprocess_run :: "ustring list list \<Rightarrow> ustring list \<Rightarrow> completed_process option"
  utcnow_stamp :: ustring
  now_minute :: ustring
  utcnow_iso :: ustring

text \<open>
  What the process does to the outside is a list of events, in order: a line printed by
  \<open>log_message\<close> (its level and which message of the source it is, with the values
  formatted into it; the time stamp in front of the line is left out), a call of
  \<open>subprocess.run\<close> with its argument list, and the two files written, each with the
  value that \<open>json.dump\<close> serialises. Printing a line is taken to succeed.
\<close>

datatype level = INFO | ERROR

datatype message =
    MsgStarting
  | MsgSeparator
  | MsgNotGitRepository
  | MsgGenerateFailed py_error
  | MsgCompleted
  | MsgWillReceiveUpdates
  | MsgWebhookConfigured
  | MsgTotalDocuments int
  | MsgCategoryConfigured
  | MsgProcessFailed
  | MsgGenerating
  | MsgProcessing ustring
  | MsgFound int ustring int
  | MsgFileInfoError path
  | MsgIndexGenerated int int
  | MsgCommitting
  | MsgNoChanges
  | MsgPushing
  | MsgPushed
  | MsgGitFailed py_error
  | MsgNotifying
  | MsgPayloadHeader
  | MsgPayloadEventType ustring
  | MsgPayloadTotal int
  | MsgPayloadCategories "ustring list"
  | MsgPayloadSpecial
  | MsgNotified
  | MsgWebhookCreated

datatype event =
    Log level message
  | Run "ustring list"
  | WriteIndex pdf_index
  | WriteWebhookConfig webhook

definition log_message :: "message \<Rightarrow> level \<Rightarrow> event list" where
  "log_message m lvl = [Log lvl m]"

section \<open>File scanner\<close>

definition endswith :: "ustring \<Rightarrow> ustring \<Rightarrow> bool" where
  "endswith s suf = (length suf \<le> length s \<and> drop (length s - length suf) s = suf)"

text \<open>
  \<open>category_path.glob('*.pdf')\<close>: the entries of the directory whose name matches the
  pattern (on POSIX: ends with \<open>.pdf\<close>, case-sensitively, hidden entries included),
  each as the path \<open>category_path / name\<close>.
\<close>

definition glob_pdf :: "world \<Rightarrow> path \<Rightarrow> path list" where
  "glob_pdf w p = map (\<lambda>n. p @ [n]) (filter (\<lambda>n. endswith n (ustr ''.pdf'')) (scandir w p))"

definition path_name :: "path \<Rightarrow> ustring" where
  "path_name p = (if p = [] then [] else last p)"

text \<open>\<open>s.rfind('.')\<close>: the last index of a dot, \<open>-1\<close> when there is none.\<close>

fun rfind_dot :: "ustring \<Rightarrow> int" where
  "rfind_dot [] = -1"
| "rfind_dot (c # cs) =
     (let r = rfind_dot cs in
      if 0 \<le> r then r + 1 else if c = 0x2E then 0 else -1)"

definition path_stem :: "path \<Rightarrow> ustring" where
  "path_stem p =
     (let name = path_name p; i = rfind_dot name
      in if 0 < i \<and> i < int (length name) - 1 then take (nat i) name else name)"

definition file_info_failed :: file_info where
  "file_info_failed = \<lparr>info_size = 0, info_modified = [], info_hash = []\<rparr>"

definition get_file_info :: "world \<Rightarrow> path \<Rightarrow> file_info \<times> event list" where
  "get_file_info w file_path =
     (case os_stat w file_path of
        None \<Rightarrow> (file_info_failed, log_message (MsgFileInfoError file_path) ERROR)
      | Some st \<Rightarrow>
          (case st_mtime_iso st of
             None \<Rightarrow> (file_info_failed, log_message (MsgFileInfoError file_path) ERROR)
           | Some m \<Rightarrow>
               (case read_bytes w file_path of
                  None \<Rightarrow> (file_info_failed, log_message (MsgFileInfoError file_path) ERROR)
                | Some content \<Rightarrow>
                    (\<lparr>info_size = st_size st, info_modified = m,
                      info_hash = md5_hexdigest content\<rparr>, []))))"

section \<open>Catalog builder\<close>

definition file_id :: "ustring \<Rightarrow> ustring \<Rightarrow> py_error + ustring" where
  "file_id category filename =
     (case encode (category @ ustr ''_'' @ filename) of
        Inl e \<Rightarrow> Inl e
      | Inr bs \<Rightarrow> Inr (take 12 (md5_hexdigest bs)))"

definition make_document :: "ustring \<Rightarrow> path \<Rightarrow> file_info \<Rightarrow> py_error + document" where
  "make_document category pdf_file fi =
     (case file_id category (path_name pdf_file) of
        Inl e \<Rightarrow> Inl e
      | Inr fid \<Rightarrow>
          (case quote (path_name pdf_file) of
             Inl e \<Rightarrow> Inl e
           | Inr q \<Rightarrow>
               Inr \<lparr>doc_id = fid,
                    doc_name = path_stem pdf_file,
                    doc_filename = path_name pdf_file,
                    doc_url = BASE_URL @ ustr ''/'' @ category @ ustr ''/'' @ q,
                    doc_category = category,
                    doc_categoryDisplayName = dict_get CATEGORY_DISPLAY_NAMES category category,
                    doc_icon = dict_get CATEGORY_ICONS category [0x1F4C4],
                    doc_size = info_size fi,
                    doc_modified = info_modified fi,
                    doc_hash = info_hash fi\<rparr>))"

text \<open>
  The inner loop over the sorted files of one category. Its variables are
  \<open>(documents, category_size, total_documents, total_size)\<close>. An exception leaves the
  loop with the events so far.
\<close>

type_synonym file_vars = "document list \<times> int \<times> int \<times> int"

fun scan_files ::
  "world \<Rightarrow> ustring \<Rightarrow> path list \<Rightarrow> file_vars \<Rightarrow> (py_error + file_vars) \<times> event list" where
  "scan_files w category [] vars = (Inr vars, [])"
| "scan_files w category (pdf_file # rest) (docs, category_size, total_documents, total_size) =
     (case get_file_info w pdf_file of
        (fi, t1) \<Rightarrow>
          (case make_document category pdf_file fi of
             Inl e \<Rightarrow> (Inl e, t1)
           | Inr d \<Rightarrow>
               (case scan_files w category rest
                       (docs @ [d], category_size + info_size fi, total_documents + 1,
                        total_size + info_size fi) of
                  (r, t2) \<Rightarrow> (r, t1 @ t2))))"

text \<open>
  The body of the loop over the categories, up to the two dictionary assignments: it
  returns the category's \<open>documents\<close> and the updated \<open>total_documents\<close> and
  \<open>total_size\<close>.
\<close>

definition scan_category ::
  "world \<Rightarrow> ustring \<Rightarrow> int \<times> int \<Rightarrow> (py_error + document list \<times> int \<times> int) \<times> event list" where
  "scan_category w category totals =
     (case totals of (total_documents, total_size) \<Rightarrow>
        let category_path = [category] in
        if path_exists w category_path \<and> path_is_dir w category_path then
          (case scan_files w category (sort (glob_pdf w category_path))
                  ([], 0, total_documents, total_size) of
             (Inl e, t) \<Rightarrow> (Inl e, log_message (MsgProcessing category) INFO @ t)
           | (Inr (docs, category_size, td, ts), t) \<Rightarrow>
               (Inr (docs, td, ts),
                log_message (MsgProcessing category) INFO @ t
                  @ log_message (MsgFound (int (length docs)) category category_size) INFO))
        else (Inr ([], total_documents, total_size), []))"

type_synonym index_vars =
  "(ustring \<times> document list) list \<times> (ustring \<times> int) list \<times> int \<times> int"

fun scan_categories ::
  "world \<Rightarrow> ustring list \<Rightarrow> index_vars \<Rightarrow> (py_error + index_vars) \<times> event list" where
  "scan_categories w [] vars = (Inr vars, [])"
| "scan_categories w (category # rest) (docs, counts, total_documents, total_size) =
     (case scan_category w category (total_documents, total_size) of
        (Inl e, t1) \<Rightarrow> (Inl e, t1)
      | (Inr (cdocs, td, ts), t1) \<Rightarrow>
          (case scan_categories w rest
                  (AList.update category cdocs docs,
                   AList.update category (int (length cdocs)) counts, td, ts) of
             (r, t2) \<Rightarrow> (r, t1 @ t2)))"

definition generate_pdf_index :: "world \<Rightarrow> (py_error + pdf_index) \<times> event list" where
  "generate_pdf_index w =
     (case scan_categories w CATEGORIES ([], [], 0, 0) of
        (Inl e, t) \<Rightarrow> (Inl e, log_message MsgGenerating INFO @ t)
      | (Inr (docs, counts, total_documents, total_size), t) \<Rightarrow>
          (let idx = \<lparr>lastUpdated = utcnow_stamp w,
                      baseUrl = BASE_URL,
                      version = ustr ''2.0'',
                      categories = CATEGORY_DISPLAY_NAMES,
                      categoryIcons = CATEGORY_ICONS,
                      documents = docs,
                      statistics = \<lparr>totalDocuments = total_documents,
                                     totalSize = total_size,
                                     categoryCounts = counts\<rparr>\<rparr>
           in if can_write w (ustr ''pdf-index.json'')
              then (Inr idx,
                    log_message MsgGenerating INFO @ t @ [WriteIndex idx]
                      @ log_message (MsgIndexGenerated total_documents total_size) INFO)
              else (Inl OSError, log_message MsgGenerating INFO @ t)))"

section \<open>Publisher\<close>

text \<open>
  \<open>str.isspace\<close> on one code point, and \<open>str.strip()\<close>, which removes the white space
  at both ends.
\<close>

definition py_isspace :: "nat \<Rightarrow> bool" where
  "py_isspace c =
     ((0x09 \<le> c \<and> c \<le> 0x0D) \<or> (0x1C \<le> c \<and> c \<le> 0x20) \<or> c = 0x85 \<or> c = 0xA0
      \<or> c = 0x1680 \<or> (0x2000 \<le> c \<and> c \<le> 0x200A) \<or> c = 0x2028 \<or> c = 0x2029
      \<or> c = 0x202F \<or> c = 0x205F \<or> c = 0x3000)"

definition strip :: "ustring \<Rightarrow> ustring" where
  "strip s = rev (dropWhile py_isspace (rev (dropWhile py_isspace s)))"

definition git_add :: "ustring list" where
  "git_add = [ustr ''git'', ustr ''add'', ustr ''.'']"

definition git_status :: "ustring list" where
  "git_status = [ustr ''git'', ustr ''status'', ustr ''--porcelain'']"

definition commit_message :: "world \<Rightarrow> ustring" where
  "commit_message w =
     ustr ''Auto-update: Documents synced with S'' @ [0xE6] @ ustr ''ravtale BNTF - ''
       @ now_minute w"

definition git_commit :: "world \<Rightarrow> ustring list" where
  "git_commit w = [ustr ''git'', ustr ''commit'', ustr ''-m'', commit_message w]"

definition git_push :: "ustring list" where
  "git_push = [ustr ''git'', ustr ''push'', ustr ''origin'', ustr ''main'']"

text \<open>
  The body of the \<open>try\<close> of \<open>git_commit_and_push\<close>: the value returned or the exception
  raised, with the events up to there.
\<close>

definition git_steps :: "world \<Rightarrow> (py_error + bool) \<times> event list" where
  "git_steps w =
     (let t1 = log_message MsgCommitting INFO @ [Run git_add] in
      case subprocess_run w [] git_add of
        None \<Rightarrow> (Inl OSError, t1)
      | Some r1 \<Rightarrow>
          if returncode r1 \<noteq> 0
          then (Inl (GitException (ustr ''Git add failed: '' @ stderr r1)), t1)
          else
            (let t2 = t1 @ [Run git_status] in
             case subprocess_run w [git_add] git_status of
               None \<Rightarrow> (Inl OSError, t2)
             | Some r2 \<Rightarrow>
                 if strip (stdout r2) = []
                 then (Inr False, t2 @ log_message MsgNoChanges INFO)
                 else
                   (let t3 = t2 @ [Run (git_commit w)] in
                    case subprocess_run w [git_add, git_status] (git_commit w) of
                      None \<Rightarrow> (Inl OSError, t3)
                    | Some r3 \<Rightarrow>
                        if returncode r3 \<noteq> 0
                        then (Inl (GitException (ustr ''Git commit failed: '' @ stderr r3)), t3)
                        else
                          (let t4 = t3 @ log_message MsgPushing INFO @ [Run git_push] in
                           case subprocess_run w [git_add, git_status, git_commit w] git_push of
                             None \<Rightarrow> (Inl OSError, t4)
                           | Some r4 \<Rightarrow>
                               if returncode r4 \<noteq> 0
                               then (Inl (GitException (ustr ''Git push failed: '' @ stderr r4)),
                                     t4)
                               else (Inr True, t4 @ log_message MsgPushed INFO)))))"

definition git_commit_and_push :: "world \<Rightarrow> bool \<times> event list" where
  "git_commit_and_push w =
     (case git_steps w of
        (Inr b, t) \<Rightarrow> (b, t)
      | (Inl e, t) \<Rightarrow> (False, t @ log_message (MsgGitFailed e) ERROR))"

section \<open>Change notifier\<close>

definition notification_payload :: "world \<Rightarrow> pdf_index \<Rightarrow> payload" where
  "notification_payload w index_data =
     \<lparr>event_type = IOS_UPDATE_EVENT_TYPE,
      client_payload =
        \<lparr>payload_timestamp = utcnow_iso w,
         payload_totalDocuments = totalDocuments (statistics index_data),
         payload_categoryCounts = categoryCounts (statistics index_data),
         payload_updatedCategories = CATEGORIES,
         payload_specialUpdate = ustr ''s'' @ [0xE6] @ ustr ''ravtale_bntf_renamed'',
         payload_indexUrl = BASE_URL @ ustr ''/pdf-index.json'',
         payload_version = version index_data\<rparr>\<rparr>"

text \<open>
  The payload is built and then only described in the log: the source makes no network
  call. Nothing in the \<open>try\<close> can raise, so the function returns \<open>True\<close>.
\<close>

definition notify_ios_app :: "world \<Rightarrow> pdf_index \<Rightarrow> bool \<times> event list" where
  "notify_ios_app w index_data =
     (let payload = notification_payload w index_data in
      (True,
       log_message MsgNotifying INFO
       @ log_message MsgPayloadHeader INFO
       @ log_message (MsgPayloadEventType IOS_UPDATE_EVENT_TYPE) INFO
       @ log_message (MsgPayloadTotal (totalDocuments (statistics index_data))) INFO
       @ log_message (MsgPayloadCategories CATEGORIES) INFO
       @ log_message MsgPayloadSpecial INFO
       @ log_message MsgNotified INFO))"

definition webhook_config :: webhook where
  "webhook_config =
     \<lparr>wh_name = ustr ''BNTF Document Auto-Update'',
      wh_description = ustr ''Automatically updates iOS app when documents change'',
      wh_events = [ustr ''push'', ustr ''release''],
      wh_config =
        [(ustr ''url'', ustr ''https://api.bntf.no/webhook/document-update''),
         (ustr ''content_type'', ustr ''application/json''),
         (ustr ''secret'', ustr ''bntf-document-webhook-secret'')],
      wh_triggers =
        [(ustr ''on_push'', True), (ustr ''on_pdf_change'', True),
         (ustr ''on_index_update'', True)],
      wh_actions =
        [ustr ''regenerate_index'', ustr ''notify_ios_app'', ustr ''update_cdn_cache'']\<rparr>"

definition create_webhook_config :: "world \<Rightarrow> (py_error + unit) \<times> event list" where
  "create_webhook_config w =
     (if can_write w (ustr ''webhook-config.json'')
      then (Inr (), [WriteWebhookConfig webhook_config] @ log_message MsgWebhookCreated INFO)
      else (Inl OSError, []))"

section \<open>The process\<close>

text \<open>
  \<open>main\<close> returns the exit code of the process and its events: \<open>sys.exit(1)\<close> and an
  exception that nothing catches both end it with code 1, the end of \<open>main\<close> with code 0.
\<close>

definition main :: "world \<Rightarrow> int \<times> event list" where
  "main w =
     (let t0 = log_message MsgStarting INFO @ log_message MsgSeparator INFO in
      if \<not> path_exists w [ustr ''.git'']
      then (1, t0 @ log_message MsgNotGitRepository ERROR)
      else
        (case generate_pdf_index w of
           (Inl e, t1) \<Rightarrow> (1, t0 @ t1 @ log_message (MsgGenerateFailed e) ERROR)
         | (Inr index_data, t1) \<Rightarrow>
             (case git_commit_and_push w of
                (True, t2) \<Rightarrow>
                  (case notify_ios_app w index_data of
                     (_, t3) \<Rightarrow>
                       (case create_webhook_config w of
                          (Inl e, t4) \<Rightarrow> (1, t0 @ t1 @ t2 @ t3 @ t4)
                        | (Inr _, t4) \<Rightarrow>
                            (0, t0 @ t1 @ t2 @ t3 @ t4
                                @ log_message MsgSeparator INFO
                                @ log_message MsgCompleted INFO
                                @ log_message MsgWillReceiveUpdates INFO
                                @ log_message MsgWebhookConfigured INFO
                                @ log_message
                                    (MsgTotalDocuments (totalDocuments (statistics index_data)))
                                    INFO
                                @ log_message MsgCategoryConfigured INFO)))
              | (False, t2) \<Rightarrow> (1, t0 @ t1 @ t2 @ log_message MsgProcessFailed ERROR))))"

section \<open>What the scan computes\<close>

text \<open>
  The two loops are compared with a description of their result that has no
  accumulator: the files of a category, the document of each file, and the first
  exception among a list of results.
\<close>

fun sequence :: "('e + 'a) list \<Rightarrow> 'e + 'a list" where
  "sequence [] = Inr []"
| "sequence (x # xs) =
     (case x of
        Inl e \<Rightarrow> Inl e
      | Inr a \<Rightarrow> (case sequence xs of Inl e \<Rightarrow> Inl e | Inr as \<Rightarrow> Inr (a # as)))"

definition category_files :: "world \<Rightarrow> ustring \<Rightarrow> path list" where
  "category_files w category =
     (if path_exists w [category] \<and> path_is_dir w [category]
      then sort (glob_pdf w [category]) else [])"

definition file_document :: "world \<Rightarrow> ustring \<Rightarrow> path \<Rightarrow> py_error + document" where
  "file_document w category pdf_file =
     make_document category pdf_file (fst (get_file_info w pdf_file))"

definition category_documents :: "world \<Rightarrow> ustring \<Rightarrow> py_error + document list" where
  "category_documents w category =
     sequence (map (file_document w category) (category_files w category))"

text \<open>A file whose metadata cannot be read: one of the three reads in the \<open>try\<close> raises.\<close>

definition metadata_raises :: "world \<Rightarrow> path \<Rightarrow> bool" where
  "metadata_raises w p =
     (case os_stat w p of
        None \<Rightarrow> True
      | Some st \<Rightarrow> st_mtime_iso st = None \<or> read_bytes w p = None)"

definition encodable :: "ustring \<Rightarrow> bool" where
  "encodable s = (case encode s of Inl _ \<Rightarrow> False | Inr _ \<Rightarrow> True)"

definition names_encodable :: "world \<Rightarrow> bool" where
  "names_encodable w =
     (\<forall>c \<in> set CATEGORIES. \<forall>p \<in> set (category_files w c). encodable (path_name p))"

text \<open>The events that belong to the change notification.\<close>

definition is_notification :: "event \<Rightarrow> bool" where
  "is_notification ev =
     (case ev of
        Log l m \<Rightarrow>
          (case m of
             MsgNotifying \<Rightarrow> True
           | MsgPayloadHeader \<Rightarrow> True
           | MsgPayloadEventType _ \<Rightarrow> True
           | MsgPayloadTotal _ \<Rightarrow> True
           | MsgPayloadCategories _ \<Rightarrow> True
           | MsgPayloadSpecial \<Rightarrow> True
           | MsgNotified \<Rightarrow> True
           | _ \<Rightarrow> False)
      | _ \<Rightarrow> False)"

section \<open>An example run\<close>

text \<open>
  A repository with two of the six category directories. \<open>vedtekter\<close> holds \<open>c.pdf\<close>,
  \<open>a.pdf\<close>, \<open>README.md\<close> and \<open>b.pdf\<close>, listed in that order, and \<open>os.stat\<close> fails on
  \<open>b.pdf\<close>; \<open>other\<close> holds \<open>x y.pdf\<close>. Every other file has 7 bytes. \<open>git status\<close>
  reports one changed file and every \<open>git\<close> command succeeds.
\<close>

definition example_world :: world where
  "example_world =
     \<lparr>path_exists =
        (\<lambda>p. p = [ustr ''.git''] \<or> p = [ustr ''vedtekter''] \<or> p = [ustr ''other'']),
      path_is_dir =
        (\<lambda>p. p = [ustr ''.git''] \<or> p = [ustr ''vedtekter''] \<or> p = [ustr ''other'']),
      scandir =
        (\<lambda>p. if p = [ustr ''vedtekter'']
             then [ustr ''c.pdf'', ustr ''a.pdf'', ustr ''README.md'', ustr ''b.pdf'']
             else if p = [ustr ''other''] then [ustr ''x y.pdf''] else []),
      os_stat =
        (\<lambda>p. if p = [ustr ''vedtekter'', ustr ''b.pdf''] then None
             else Some \<lparr>st_size = 7,
                        st_mtime_iso = Some (ustr ''2024-01-01T00:00:00+00:00'')\<rparr>),
      read_bytes = (\<lambda>p. Some [0x25, 0x50, 0x44, 0x46, 0x2D, 0x31, 0x0A]),
      can_write = (\<lambda>f. True),
      subprocess_run =
        (\<lambda>h argv. Some \<lparr>returncode = 0,
                          stdout = (if argv = git_status
                                    then ustr ''M  pdf-index.json'' @ [0x0A] else []),
                          stderr = []\<rparr>),
      utcnow_stamp = ustr ''2024-05-05T10:00:00Z'',
      now_minute = ustr ''2024-05-05 12:00'',
      utcnow_iso = ustr ''2024-05-05T10:00:01.123456+00:00''\<rparr>"

text \<open>
  Variations of it: \<open>git status\<close> reports nothing; the push is rejected; there is no
  \<open>.git\<close>; \<open>other\<close> holds a file whose name is not valid UTF-8 (Python reads the byte
  \<open>0xE6\<close> of its name as the lone surrogate \<open>U+DCE6\<close>).
\<close>

definition clean_world :: world where
  "clean_world =
     example_world\<lparr>subprocess_run :=
       (\<lambda>h argv. Some \<lparr>returncode = 0, stdout = [], stderr = []\<rparr>)\<rparr>"

definition rejected_world :: world where
  "rejected_world =
     example_world\<lparr>subprocess_run :=
       (\<lambda>h argv. Some \<lparr>returncode = (if argv = git_push then 1 else 0),
                         stdout = (if argv = git_status
                                   then ustr ''M  pdf-index.json'' @ [0x0A] else []),
                         stderr = (if argv = git_push then ustr ''rejected'' else [])\<rparr>)\<rparr>"

definition no_git_world :: world where
  "no_git_world =
     example_world\<lparr>path_exists :=
       (\<lambda>p. p = [ustr ''vedtekter''] \<or> p = [ustr ''other''])\<rparr>"

definition bad_name_world :: world where
  "bad_name_world =
     example_world\<lparr>scandir :=
       (\<lambda>p. if p = [ustr ''other''] then [ustr ''s'' @ [0xDCE6] @ ustr ''r.pdf'']
            else scandir example_world p)\<rparr>"

section \<open>The loops and their closed form\<close>

lemma distinct_CATEGORIES: "distinct CATEGORIES"
  by (simp add: CATEGORIES_def saeravtale_bntf_def ustr_def)

lemma sequence_map_Inr: "sequence (map Inr ys) = Inr ys"
  by (induction ys) simp_all

lemma sequence_Inr_iff: "sequence xs = Inr ys \<longleftrightarrow> xs = map Inr ys"
proof
  show "sequence xs = Inr ys \<Longrightarrow> xs = map Inr ys"
    by (induction xs arbitrary: ys) (auto split: sum.splits)
  show "xs = map Inr ys \<Longrightarrow> sequence xs = Inr ys"
    by (simp add: sequence_map_Inr)
qed

lemma sequence_total:
  "(\<forall>x \<in> set xs. \<exists>a. x = Inr a) \<Longrightarrow> \<exists>ys. sequence xs = Inr ys"
  by (induction xs) auto

lemma make_document_size: "make_document c p fi = Inr d \<Longrightarrow> doc_size d = info_size fi"
  by (auto simp: make_document_def split: sum.splits)

lemma scan_files_fst:
  "fst (scan_files w c ps (docs, cs, td, ts)) =
     (case sequence (map (file_document w c) ps) of
        Inl e \<Rightarrow> Inl e
      | Inr ds \<Rightarrow> Inr (docs @ ds, cs + sum_list (map doc_size ds), td + int (length ds),
                      ts + sum_list (map doc_size ds)))"
proof (induction ps arbitrary: docs cs td ts)
  case Nil
  show ?case by simp
next
  case (Cons p ps)
  obtain fi t1 where g: "get_file_info w p = (fi, t1)" by (cases "get_file_info w p")
  show ?case
  proof (cases "make_document c p fi")
    case (Inl e)
    with g show ?thesis by (simp add: file_document_def)
  next
    case (Inr d)
    have sz: "doc_size d = info_size fi" using Inr by (rule make_document_size)
    show ?thesis
      using g Inr Cons.IH [of "docs @ [d]" "cs + info_size fi" "td + 1" "ts + info_size fi"]
      by (simp add: file_document_def sz split_beta split: sum.splits)
  qed
qed

lemma scan_category_fst:
  "fst (scan_category w c (td, ts)) =
     (case category_documents w c of
        Inl e \<Rightarrow> Inl e
      | Inr ds \<Rightarrow> Inr (ds, td + int (length ds), ts + sum_list (map doc_size ds)))"
proof (cases "path_exists w [c] \<and> path_is_dir w [c]")
  case True
  obtain r t where s: "scan_files w c (sort (glob_pdf w [c])) ([], 0, td, ts) = (r, t)"
    by (cases "scan_files w c (sort (glob_pdf w [c])) ([], 0, td, ts)")
  have r: "r = (case sequence (map (file_document w c) (sort (glob_pdf w [c]))) of
        Inl e \<Rightarrow> Inl e
      | Inr ds \<Rightarrow> Inr ([] @ ds, 0 + sum_list (map doc_size ds), td + int (length ds),
                      ts + sum_list (map doc_size ds)))"
    using scan_files_fst [of w c "sort (glob_pdf w [c])" "[]" 0 td ts] s by simp
  show ?thesis
    using True s r
    by (simp add: scan_category_def category_documents_def category_files_def
          split: sum.splits)
next
  case False
  then show ?thesis
    by (auto simp: scan_category_def category_documents_def category_files_def)
qed

lemma update_fresh: "k \<notin> fst ` set xs \<Longrightarrow> AList.update k v xs = xs @ [(k, v)]"
  by (induction xs) auto

lemma scan_categories_fst:
  assumes "distinct cs" "set cs \<inter> fst ` set docs = {}" "set cs \<inter> fst ` set counts = {}"
  shows "fst (scan_categories w cs (docs, counts, td, ts)) =
     (case sequence (map (category_documents w) cs) of
        Inl e \<Rightarrow> Inl e
      | Inr dss \<Rightarrow>
          Inr (docs @ zip cs dss, counts @ zip cs (map (\<lambda>ds. int (length ds)) dss),
               td + int (length (concat dss)), ts + sum_list (map doc_size (concat dss))))"
  using assms
proof (induction cs arbitrary: docs counts td ts)
  case Nil
  show ?case by simp
next
  case (Cons c cs)
  obtain r1 t1 where s1: "scan_category w c (td, ts) = (r1, t1)"
    by (cases "scan_category w c (td, ts)")
  have r1: "r1 = (case category_documents w c of
        Inl e \<Rightarrow> Inl e
      | Inr ds \<Rightarrow> Inr (ds, td + int (length ds), ts + sum_list (map doc_size ds)))"
    using scan_category_fst [of w c td ts] s1 by simp
  show ?case
  proof (cases "category_documents w c")
    case (Inl e)
    with s1 r1 show ?thesis by simp
  next
    case (Inr ds)
    have fresh: "c \<notin> fst ` set docs" "c \<notin> fst ` set counts"
      using Cons.prems by auto
    have d1: "AList.update c ds docs = docs @ [(c, ds)]"
      and d2: "AList.update c (int (length ds)) counts = counts @ [(c, int (length ds))]"
      using fresh by (simp_all add: update_fresh)
    have p1: "distinct cs" using Cons.prems by simp
    have p2: "set cs \<inter> fst ` set (docs @ [(c, ds)]) = {}"
      using Cons.prems by auto
    have p3: "set cs \<inter> fst ` set (counts @ [(c, int (length ds))]) = {}"
      using Cons.prems by auto
    note IH = Cons.IH [OF p1 p2 p3,
        of "td + int (length ds)" "ts + sum_list (map doc_size ds)"]
    show ?thesis
      using s1 r1 Inr IH
      by (simp add: d1 d2 split_beta split: sum.splits)
  qed
qed

lemma generate_pdf_index_fst:
  "fst (generate_pdf_index w) =
     (case sequence (map (category_documents w) CATEGORIES) of
        Inl e \<Rightarrow> Inl e
      | Inr dss \<Rightarrow>
          if can_write w (ustr ''pdf-index.json'')
          then Inr \<lparr>lastUpdated = utcnow_stamp w, baseUrl = BASE_URL, version = ustr ''2.0'',
                    categories = CATEGORY_DISPLAY_NAMES, categoryIcons = CATEGORY_ICONS,
                    documents = zip CATEGORIES dss,
                    statistics =
                      \<lparr>totalDocuments = int (length (concat dss)),
                       totalSize = sum_list (map doc_size (concat dss)),
                       categoryCounts = zip CATEGORIES (map (\<lambda>ds. int (length ds)) dss)\<rparr>\<rparr>
          else Inl OSError)"
proof -
  obtain r t where s: "scan_categories w CATEGORIES ([], [], 0, 0) = (r, t)"
    by (cases "scan_categories w CATEGORIES ([], [], 0, 0)")
  have r: "r = (case sequence (map (category_documents w) CATEGORIES) of
        Inl e \<Rightarrow> Inl e
      | Inr dss \<Rightarrow>
          Inr ([] @ zip CATEGORIES dss, [] @ zip CATEGORIES (map (\<lambda>ds. int (length ds)) dss),
               0 + int (length (concat dss)), 0 + sum_list (map doc_size (concat dss))))"
    using scan_categories_fst [OF distinct_CATEGORIES, of "[]" "[]" w 0 0] s by simp
  show ?thesis
    using s r by (simp add: generate_pdf_index_def Let_def split: sum.splits)
qed

lemma generate_pdf_index_Inr:
  assumes "fst (generate_pdf_index w) = Inr idx"
  obtains dss where
    "map (category_documents w) CATEGORIES = map Inr dss"
    "documents idx = zip CATEGORIES dss"
    "categoryCounts (statistics idx) = zip CATEGORIES (map (\<lambda>ds. int (length ds)) dss)"
    "totalDocuments (statistics idx) = int (length (concat dss))"
    "totalSize (statistics idx) = sum_list (map doc_size (concat dss))"
    "lastUpdated idx = utcnow_stamp w"
    "can_write w (ustr ''pdf-index.json'')"
proof (cases "sequence (map (category_documents w) CATEGORIES)")
  case (Inl e)
  with assms show ?thesis by (simp add: generate_pdf_index_fst)
next
  case (Inr dss)
  have m: "map (category_documents w) CATEGORIES = map Inr dss"
    using Inr by (simp add: sequence_Inr_iff)
  show ?thesis
    using assms Inr that [OF m]
    by (auto simp: generate_pdf_index_fst split: if_splits)
qed

lemma sum_lengths_concat: "int (length (concat dss)) = sum_list (map (\<lambda>ds. int (length ds)) dss)"
  by (induction dss) simp_all

section \<open>When generation returns a catalog\<close>

lemma encode_append:
  "encode (a @ b) =
     (case encode a of
        Inl e \<Rightarrow> Inl e
      | Inr x \<Rightarrow> (case encode b of Inl e \<Rightarrow> Inl e | Inr y \<Rightarrow> Inr (x @ y)))"
  by (induction a) (auto split: option.splits sum.splits)

lemma encodable_append: "encodable (a @ b) \<longleftrightarrow> encodable a \<and> encodable b"
  by (simp add: encodable_def encode_append split: sum.splits)

lemma encode_underscore: "encode (ustr ''_'') = Inr [0x5F]"
  by (simp add: ustr_def utf8_char_def)

lemma encodable_CATEGORIES: "c \<in> set CATEGORIES \<Longrightarrow> encodable c"
  by (auto simp: CATEGORIES_def saeravtale_bntf_def encodable_def ustr_def utf8_char_def)

lemma file_document_Inr_iff:
  "(\<exists>d. file_document w c p = Inr d) \<longleftrightarrow> encodable c \<and> encodable (path_name p)"
  by (auto simp: file_document_def make_document_def file_id_def quote_def encodable_def
        encode_append encode_underscore split: sum.splits)

lemma category_documents_total:
  assumes "encodable c" "\<forall>p \<in> set (category_files w c). encodable (path_name p)"
  shows "\<exists>ds. category_documents w c = Inr ds"
  unfolding category_documents_def
  by (rule sequence_total) (use assms file_document_Inr_iff in auto)

lemma generate_pdf_index_total:
  assumes "names_encodable w" "can_write w (ustr ''pdf-index.json'')"
  shows "\<exists>idx. fst (generate_pdf_index w) = Inr idx"
proof -
  have "\<forall>x \<in> set (map (category_documents w) CATEGORIES). \<exists>a. x = Inr a"
    using assms(1) category_documents_total encodable_CATEGORIES
    by (auto simp: names_encodable_def)
  then obtain dss where "sequence (map (category_documents w) CATEGORIES) = Inr dss"
    using sequence_total by blast
  then show ?thesis using assms(2) by (simp add: generate_pdf_index_fst)
qed

lemma example_files:
  "category_files example_world (ustr ''vedtekter'') =
     [[ustr ''vedtekter'', ustr ''a.pdf''], [ustr ''vedtekter'', ustr ''b.pdf''],
      [ustr ''vedtekter'', ustr ''c.pdf'']]"
  "category_files example_world (ustr ''other'') = [[ustr ''other'', ustr ''x y.pdf'']]"
  "category_files example_world (ustr ''protokoller'') = []"
  "category_files example_world saeravtale_bntf = []"
  "category_files example_world (ustr ''hovedavtalen'') = []"
  "category_files example_world (ustr ''overenskomsten'') = []"
  by (simp_all add: category_files_def example_world_def glob_pdf_def endswith_def
        saeravtale_bntf_def ustr_def)

lemma example_names_encodable: "names_encodable example_world"
  unfolding names_encodable_def CATEGORIES_def
  by (simp add: example_files) (simp add: path_name_def encodable_def ustr_def utf8_char_def)

section \<open>Catalog statistics\<close>

text \<open>
  Claim C1. In every catalog that index generation returns, the two dictionaries
  \<open>documents\<close> and \<open>categoryCounts\<close> have exactly the configured categories as keys,
  in configuration order; for every configured category the count stored is the length
  of its document list; \<open>totalDocuments\<close> is the sum of the values of
  \<open>categoryCounts\<close>; and \<open>totalSize\<close> is the sum of the \<open>size\<close> fields of all document
  records of all categories.
\<close>

theorem statistics_derivable:
  assumes "fst (generate_pdf_index w) = Inr idx"
  shows "map fst (documents idx) = CATEGORIES
       \<and> map fst (categoryCounts (statistics idx)) = CATEGORIES
       \<and> (\<forall>c \<in> set CATEGORIES. \<exists>docs.
             map_of (documents idx) c = Some docs
           \<and> map_of (categoryCounts (statistics idx)) c = Some (int (length docs)))
       \<and> totalDocuments (statistics idx) = sum_list (map snd (categoryCounts (statistics idx)))
       \<and> totalSize (statistics idx) = sum_list (map doc_size (concat (map snd (documents idx))))"
proof -
  from assms obtain dss where
    m: "map (category_documents w) CATEGORIES = map Inr dss" and
    d: "documents idx = zip CATEGORIES dss" and
    c: "categoryCounts (statistics idx) = zip CATEGORIES (map (\<lambda>ds. int (length ds)) dss)" and
    td: "totalDocuments (statistics idx) = int (length (concat dss))" and
    ts: "totalSize (statistics idx) = sum_list (map doc_size (concat dss))"
    by (rule generate_pdf_index_Inr)
  have len: "length dss = length CATEGORIES"
    using arg_cong [OF m, of length] by simp
  have k1: "map fst (documents idx) = CATEGORIES" using d len by simp
  have k2: "map fst (categoryCounts (statistics idx)) = CATEGORIES" using c len by simp
  have s1: "map snd (documents idx) = dss" using d len by simp
  have s2: "map snd (categoryCounts (statistics idx)) = map (\<lambda>ds. int (length ds)) dss"
    using c len by simp
  have each: "\<exists>docs. map_of (documents idx) k = Some docs
           \<and> map_of (categoryCounts (statistics idx)) k = Some (int (length docs))"
    if "k \<in> set CATEGORIES" for k
  proof -
    from that obtain i where i: "i < length CATEGORIES" "CATEGORIES ! i = k"
      by (auto simp: in_set_conv_nth)
    have "map_of (zip CATEGORIES dss) k = Some (dss ! i)"
      using i len distinct_CATEGORIES by (metis map_of_zip_nth)
    moreover have "map_of (zip CATEGORIES (map (\<lambda>ds. int (length ds)) dss)) k
        = Some (map (\<lambda>ds. int (length ds)) dss ! i)"
      using i len distinct_CATEGORIES by (metis map_of_zip_nth length_map)
    ultimately show ?thesis using i len by (simp add: d c)
  qed
  show ?thesis
    using k1 k2 each td ts s1 s2 by (simp add: sum_lengths_concat)
qed

theorem statistics_derivable_witness:
  "\<exists>idx docs. fst (generate_pdf_index example_world) = Inr idx
       \<and> map fst (documents idx) = CATEGORIES
       \<and> map fst (categoryCounts (statistics idx)) = CATEGORIES
       \<and> map_of (documents idx) (ustr ''vedtekter'') = Some docs
       \<and> map_of (categoryCounts (statistics idx)) (ustr ''vedtekter'') = Some (int (length docs))
       \<and> totalDocuments (statistics idx) = sum_list (map snd (categoryCounts (statistics idx)))
       \<and> totalSize (statistics idx) = sum_list (map doc_size (concat (map snd (documents idx))))"
proof -
  have "can_write example_world (ustr ''pdf-index.json'')"
    by (simp add: example_world_def)
  with example_names_encodable obtain idx where
    g: "fst (generate_pdf_index example_world) = Inr idx"
    using generate_pdf_index_total by blast
  have "ustr ''vedtekter'' \<in> set CATEGORIES"
    by (simp add: CATEGORIES_def)
  with g statistics_derivable [OF g] show ?thesis by blast
qed

section \<open>Events of the publisher and of the process\<close>

lemma not_notification [simp]:
  "\<not> is_notification (Run argv)"
  "\<not> is_notification (WriteIndex idx)"
  "\<not> is_notification (WriteWebhookConfig cfg)"
  "\<not> is_notification (Log l MsgStarting)"
  "\<not> is_notification (Log l MsgSeparator)"
  "\<not> is_notification (Log l MsgNotGitRepository)"
  "\<not> is_notification (Log l MsgCompleted)"
  "\<not> is_notification (Log l MsgWillReceiveUpdates)"
  "\<not> is_notification (Log l MsgWebhookConfigured)"
  "\<not> is_notification (Log l MsgCategoryConfigured)"
  "\<not> is_notification (Log l MsgProcessFailed)"
  "\<not> is_notification (Log l MsgGenerating)"
  "\<not> is_notification (Log l MsgCommitting)"
  "\<not> is_notification (Log l MsgNoChanges)"
  "\<not> is_notification (Log l MsgPushing)"
  "\<not> is_notification (Log l MsgPushed)"
  "\<not> is_notification (Log l MsgWebhookCreated)"
  "\<not> is_notification (Log l (MsgGenerateFailed e))"
  "\<not> is_notification (Log l (MsgTotalDocuments n))"
  "\<not> is_notification (Log l (MsgProcessing c))"
  "\<not> is_notification (Log l (MsgFileInfoError p))"
  "\<not> is_notification (Log l (MsgGitFailed e))"
  "\<not> is_notification (Log l (MsgFound n c k))"
  "\<not> is_notification (Log l (MsgIndexGenerated n k))"
  by (simp_all add: is_notification_def)

lemma git_steps_trace: "\<forall>ev \<in> set (snd (git_steps w)). \<not> is_notification ev"
  by (simp add: git_steps_def log_message_def Let_def split: option.splits)

lemma git_steps_True:
  assumes "fst (git_steps w) = Inr True"
  shows "snd (git_steps w) =
           [Log INFO MsgCommitting, Run git_add, Run git_status, Run (git_commit w),
            Log INFO MsgPushing, Run git_push, Log INFO MsgPushed]
       \<and> (\<exists>r. subprocess_run w [git_add, git_status, git_commit w] git_push = Some r
              \<and> returncode r = 0)"
  using assms
  by (auto simp: git_steps_def log_message_def Let_def split: option.splits if_splits)

lemma git_commit_and_push_trace:
  "\<forall>ev \<in> set (snd (git_commit_and_push w)). \<not> is_notification ev"
  using git_steps_trace [of w]
  by (auto simp: git_commit_and_push_def log_message_def split: prod.splits sum.splits)

lemma git_commit_and_push_True:
  assumes "fst (git_commit_and_push w)"
  shows "snd (git_commit_and_push w) =
           [Log INFO MsgCommitting, Run git_add, Run git_status, Run (git_commit w),
            Log INFO MsgPushing, Run git_push, Log INFO MsgPushed]
       \<and> (\<exists>r. subprocess_run w [git_add, git_status, git_commit w] git_push = Some r
              \<and> returncode r = 0)"
proof -
  have "fst (git_steps w) = Inr True"
    using assms by (auto simp: git_commit_and_push_def split: prod.splits sum.splits)
  from git_steps_True [OF this] this show ?thesis
    by (auto simp: git_commit_and_push_def split: prod.splits sum.splits)
qed

lemma get_file_info_trace: "\<forall>ev \<in> set (snd (get_file_info w p)). \<not> is_notification ev"
  by (simp add: get_file_info_def log_message_def split: option.splits)

lemma scan_files_trace: "\<forall>ev \<in> set (snd (scan_files w c ps vars)). \<not> is_notification ev"
proof (induction ps arbitrary: vars)
  case Nil
  show ?case by simp
next
  case (Cons p ps)
  obtain docs cs td ts where v: "vars = (docs, cs, td, ts)" by (cases vars)
  obtain fi t1 where g: "get_file_info w p = (fi, t1)" by (cases "get_file_info w p")
  have t1: "\<forall>ev \<in> set t1. \<not> is_notification ev"
    using get_file_info_trace [of w p] g by simp
  show ?case
  proof (cases "make_document c p fi")
    case (Inl e)
    with v g t1 show ?thesis by simp
  next
    case (Inr d)
    with v g t1 Cons.IH [of "(docs @ [d], cs + info_size fi, td + 1, ts + info_size fi)"]
    show ?thesis by (auto simp: split_beta)
  qed
qed

lemma scan_category_trace:
  "\<forall>ev \<in> set (snd (scan_category w c totals)). \<not> is_notification ev"
  using scan_files_trace [of w c "sort (glob_pdf w [c])" "([], 0, fst totals, snd totals)"]
  by (auto simp: scan_category_def log_message_def Let_def split_beta
        split: sum.splits prod.splits)

lemma scan_categories_trace:
  "\<forall>ev \<in> set (snd (scan_categories w cs vars)). \<not> is_notification ev"
proof (induction cs arbitrary: vars)
  case Nil
  show ?case by simp
next
  case (Cons c cs)
  obtain docs counts td ts where v: "vars = (docs, counts, td, ts)" by (cases vars)
  obtain r1 t1 where s: "scan_category w c (td, ts) = (r1, t1)"
    by (cases "scan_category w c (td, ts)")
  have t1: "\<forall>ev \<in> set t1. \<not> is_notification ev"
    using scan_category_trace [of w c "(td, ts)"] s by simp
  show ?case
  proof (cases r1)
    case (Inl e)
    with v s t1 show ?thesis by simp
  next
    case (Inr x)
    obtain cdocs td' ts' where x: "x = (cdocs, td', ts')" by (cases x)
    show ?thesis
      using v s t1 Inr x
        Cons.IH [of "(AList.update c cdocs docs, AList.update c (int (length cdocs)) counts,
                      td', ts')"]
      by (auto simp: split_beta)
  qed
qed

lemma generate_pdf_index_trace:
  "\<forall>ev \<in> set (snd (generate_pdf_index w)). \<not> is_notification ev"
  using scan_categories_trace [of w CATEGORIES "([], [], 0, 0)"]
  by (auto simp: generate_pdf_index_def log_message_def Let_def
        split: sum.splits prod.splits)

lemma main_not_git:
  "\<not> path_exists w [ustr ''.git''] \<Longrightarrow>
     main w = (1, [Log INFO MsgStarting, Log INFO MsgSeparator, Log ERROR MsgNotGitRepository])"
  by (simp add: main_def log_message_def)

lemma main_generate_failed:
  "path_exists w [ustr ''.git''] \<Longrightarrow> generate_pdf_index w = (Inl e, t1) \<Longrightarrow>
     main w = (1, [Log INFO MsgStarting, Log INFO MsgSeparator] @ t1
                    @ [Log ERROR (MsgGenerateFailed e)])"
  by (simp add: main_def log_message_def)

lemma main_publish_failed:
  "path_exists w [ustr ''.git''] \<Longrightarrow> generate_pdf_index w = (Inr idx, t1) \<Longrightarrow>
   git_commit_and_push w = (False, t2) \<Longrightarrow>
     main w = (1, [Log INFO MsgStarting, Log INFO MsgSeparator] @ t1 @ t2
                    @ [Log ERROR MsgProcessFailed])"
  by (simp add: main_def log_message_def)

lemma main_published:
  "path_exists w [ustr ''.git''] \<Longrightarrow> generate_pdf_index w = (Inr idx, t1) \<Longrightarrow>
   git_commit_and_push w = (True, t2) \<Longrightarrow>
     main w =
       (if can_write w (ustr ''webhook-config.json'') then 0 else 1,
        [Log INFO MsgStarting, Log INFO MsgSeparator] @ t1 @ t2
          @ snd (notify_ios_app w idx)
          @ (if can_write w (ustr ''webhook-config.json'')
             then [WriteWebhookConfig webhook_config, Log INFO MsgWebhookCreated,
                   Log INFO MsgSeparator,
                   Log INFO MsgCompleted, Log INFO MsgWillReceiveUpdates,
                   Log INFO MsgWebhookConfigured,
                   Log INFO (MsgTotalDocuments (totalDocuments (statistics idx))),
                   Log INFO MsgCategoryConfigured]
             else []))"
  by (simp add: main_def log_message_def create_webhook_config_def split_beta)

lemma before_first:
  assumes "xs @ ys = pre @ ev # post" "\<forall>x \<in> set xs. \<not> P x" "P ev"
  shows "set xs \<subseteq> set pre"
  using assms
proof (induction xs arbitrary: pre)
  case Nil
  show ?case by simp
next
  case (Cons x xs)
  show ?case
  proof (cases pre)
    case Nil
    with Cons.prems show ?thesis by auto
  next
    case (Cons p pre')
    with Cons.prems Cons.IH [of pre'] show ?thesis by auto
  qed
qed

lemma notify_ios_app_total:
  "Log l (MsgPayloadTotal n) \<in> set (snd (notify_ios_app w idx)) \<Longrightarrow>
     n = totalDocuments (statistics idx)"
  by (simp add: notify_ios_app_def log_message_def)

section \<open>The example runs\<close>

lemma example_generates: "\<exists>idx. fst (generate_pdf_index example_world) = Inr idx"
  using generate_pdf_index_total [OF example_names_encodable]
  by (simp add: example_world_def)

lemma example_published:
  "git_commit_and_push example_world =
     (True, [Log INFO MsgCommitting, Run git_add, Run git_status,
             Run (git_commit example_world), Log INFO MsgPushing, Run git_push,
             Log INFO MsgPushed])"
  by (simp add: git_commit_and_push_def git_steps_def log_message_def example_world_def
        strip_def py_isspace_def ustr_def)

lemma clean_not_published: "\<not> fst (git_commit_and_push clean_world)"
  by (simp add: git_commit_and_push_def git_steps_def log_message_def clean_world_def
        example_world_def strip_def)

lemma rejected_not_published: "\<not> fst (git_commit_and_push rejected_world)"
  by (simp add: git_commit_and_push_def git_steps_def log_message_def rejected_world_def
        example_world_def strip_def py_isspace_def ustr_def)

lemma bad_name_fails: "fst (generate_pdf_index bad_name_world) = Inl UnicodeEncodeError"
  by (simp add: generate_pdf_index_fst CATEGORIES_def category_documents_def
        category_files_def bad_name_world_def example_world_def glob_pdf_def endswith_def
        file_document_def make_document_def file_id_def quote_def path_name_def
        saeravtale_bntf_def ustr_def utf8_char_def)

section \<open>Exit codes\<close>

text \<open>
  Claim C2. The process ends with code 0 exactly when the check for \<open>.git\<close> passes,
  catalog generation returns a catalog, the publish step returns \<open>True\<close> and the webhook
  configuration is written. Without \<open>.git\<close> it ends with code 1 after three log lines
  and nothing else: the check comes before any catalog work. It ends with code 1 when
  catalog generation raises, and when the publish step does not return \<open>True\<close> (a git
  command failed, or there was nothing to commit).
\<close>

theorem exit_codes:
  "(fst (main w) = 0 \<longleftrightarrow>
      path_exists w [ustr ''.git'']
      \<and> (\<exists>idx. fst (generate_pdf_index w) = Inr idx)
      \<and> fst (git_commit_and_push w)
      \<and> fst (create_webhook_config w) = Inr ())
   \<and> (\<not> path_exists w [ustr ''.git''] \<longrightarrow>
        main w = (1, [Log INFO MsgStarting, Log INFO MsgSeparator,
                      Log ERROR MsgNotGitRepository]))
   \<and> ((\<exists>e. fst (generate_pdf_index w) = Inl e) \<longrightarrow> fst (main w) = 1)
   \<and> (\<not> fst (git_commit_and_push w) \<longrightarrow> fst (main w) = 1)"
proof (cases "path_exists w [ustr ''.git'']")
  case False
  then show ?thesis using main_not_git [of w] by simp
next
  case git: True
  obtain r t1 where g: "generate_pdf_index w = (r, t1)" by (cases "generate_pdf_index w")
  show ?thesis
  proof (cases r)
    case (Inl e)
    with git g main_generate_failed [of w e t1] show ?thesis by simp
  next
    case (Inr idx)
    obtain b t2 where p: "git_commit_and_push w = (b, t2)" by (cases "git_commit_and_push w")
    show ?thesis
    proof (cases b)
      case False
      with git g Inr p main_publish_failed [of w idx t1 t2] show ?thesis by simp
    next
      case True
      with git g Inr p main_published [of w idx t1 t2] show ?thesis
        by (simp add: create_webhook_config_def)
    qed
  qed
qed

theorem exit_codes_witness:
  "fst (main example_world) = 0
   \<and> main no_git_world = (1, [Log INFO MsgStarting, Log INFO MsgSeparator,
                                Log ERROR MsgNotGitRepository])
   \<and> fst (main bad_name_world) = 1
   \<and> fst (main rejected_world) = 1
   \<and> fst (main clean_world) = 1"
proof -
  have a: "fst (main example_world) = 0"
    using exit_codes [of example_world] example_generates example_published
    by (simp add: example_world_def create_webhook_config_def)
  have b: "main no_git_world = (1, [Log INFO MsgStarting, Log INFO MsgSeparator,
                                    Log ERROR MsgNotGitRepository])"
    using exit_codes [of no_git_world]
    by (simp add: no_git_world_def example_world_def ustr_def)
  have c: "fst (main bad_name_world) = 1"
    using exit_codes [of bad_name_world] bad_name_fails by simp
  have d: "fst (main rejected_world) = 1"
    using exit_codes [of rejected_world] rejected_not_published by simp
  have e: "fst (main clean_world) = 1"
    using exit_codes [of clean_world] clean_not_published by simp
  from a b c d e show ?thesis by simp
qed

section \<open>Notification\<close>

text \<open>
  Claim C3. Every event of the change notification in a run of the process comes after
  the publish step has returned \<open>True\<close>: the \<open>git push\<close> ended with status 0, and the
  push and its success line precede the event. When the publish step does not return
  \<open>True\<close> (failure, or nothing to commit) the run has no notification event. The
  payload built from the generated catalog carries the catalog's \<open>totalDocuments\<close>, and
  so does the total that the notification logs.
\<close>

theorem notification_after_publish:
  "(\<forall>pre ev post. snd (main w) = pre @ ev # post \<and> is_notification ev \<longrightarrow>
        fst (git_commit_and_push w)
      \<and> (\<exists>r. subprocess_run w [git_add, git_status, git_commit w] git_push = Some r
             \<and> returncode r = 0)
      \<and> Run git_push \<in> set pre \<and> Log INFO MsgPushed \<in> set pre)
   \<and> (\<not> fst (git_commit_and_push w) \<longrightarrow> (\<forall>ev \<in> set (snd (main w)). \<not> is_notification ev))
   \<and> (\<forall>idx. fst (generate_pdf_index w) = Inr idx \<longrightarrow>
          payload_totalDocuments (client_payload (notification_payload w idx))
            = totalDocuments (statistics idx)
        \<and> (\<forall>l n. Log l (MsgPayloadTotal n) \<in> set (snd (main w)) \<longrightarrow>
               n = totalDocuments (statistics idx)))"
proof -
  let ?t0 = "[Log INFO MsgStarting, Log INFO MsgSeparator]"
  have quiet_gen: "\<forall>ev \<in> set (snd (generate_pdf_index w)). \<not> is_notification ev"
    by (rule generate_pdf_index_trace)
  have quiet_git: "\<forall>ev \<in> set (snd (git_commit_and_push w)). \<not> is_notification ev"
    by (rule git_commit_and_push_trace)
  have quiet: "\<forall>ev \<in> set (snd (main w)). \<not> is_notification ev"
    if "\<not> (path_exists w [ustr ''.git''] \<and> (\<exists>idx. fst (generate_pdf_index w) = Inr idx)
           \<and> fst (git_commit_and_push w))"
  proof (cases "path_exists w [ustr ''.git'']")
    case False
    then show ?thesis using main_not_git [of w] by simp
  next
    case git: True
    obtain r t1 where g: "generate_pdf_index w = (r, t1)" by (cases "generate_pdf_index w")
    show ?thesis
    proof (cases r)
      case (Inl e)
      with git g main_generate_failed [of w e t1] quiet_gen show ?thesis by auto
    next
      case (Inr idx)
      obtain b t2 where p: "git_commit_and_push w = (b, t2)"
        by (cases "git_commit_and_push w")
      with that git g Inr have "\<not> b" by simp
      with git g Inr p main_publish_failed [of w idx t1 t2] quiet_gen quiet_git
      show ?thesis by auto
    qed
  qed
  have part1: "fst (git_commit_and_push w)
      \<and> (\<exists>r. subprocess_run w [git_add, git_status, git_commit w] git_push = Some r
             \<and> returncode r = 0)
      \<and> Run git_push \<in> set pre \<and> Log INFO MsgPushed \<in> set pre"
    if tr: "snd (main w) = pre @ ev # post" and n: "is_notification ev" for pre ev post
  proof -
    have ok: "path_exists w [ustr ''.git''] \<and> (\<exists>idx. fst (generate_pdf_index w) = Inr idx)
           \<and> fst (git_commit_and_push w)"
      using quiet tr n by (metis in_set_conv_decomp)
    then obtain idx t1 where g: "generate_pdf_index w = (Inr idx, t1)"
      by (cases "generate_pdf_index w") auto
    obtain t2 where p: "git_commit_and_push w = (True, t2)"
      using ok by (cases "git_commit_and_push w") auto
    from ok git_commit_and_push_True [of w] p
    have t2: "t2 = [Log INFO MsgCommitting, Run git_add, Run git_status, Run (git_commit w),
                    Log INFO MsgPushing, Run git_push, Log INFO MsgPushed]"
      and push: "\<exists>r. subprocess_run w [git_add, git_status, git_commit w] git_push = Some r
                   \<and> returncode r = 0"
      by simp_all
    obtain rest where m: "snd (main w) = (?t0 @ t1 @ t2) @ rest"
      using ok g p main_published [of w idx t1 t2] by simp
    have "\<forall>x \<in> set (?t0 @ t1 @ t2). \<not> is_notification x"
      using quiet_gen quiet_git g p by auto
    from before_first [OF m [unfolded tr, symmetric] this n]
    have "set t2 \<subseteq> set pre" by simp
    then show ?thesis using ok push by (simp add: t2)
  qed
  have part3: "n = totalDocuments (statistics idx)"
    if gi: "fst (generate_pdf_index w) = Inr idx"
      and l: "Log l (MsgPayloadTotal n) \<in> set (snd (main w))" for idx l n
  proof -
    have nt: "is_notification (Log l (MsgPayloadTotal n))" by (simp add: is_notification_def)
    with quiet l have ok: "path_exists w [ustr ''.git'']" "fst (git_commit_and_push w)"
      by blast+
    obtain t1 where g: "generate_pdf_index w = (Inr idx, t1)"
      using gi by (cases "generate_pdf_index w") auto
    obtain t2 where p: "git_commit_and_push w = (True, t2)"
      using ok by (cases "git_commit_and_push w") auto
    have "Log l (MsgPayloadTotal n) \<in> set (snd (notify_ios_app w idx))"
      using l nt ok g p main_published [of w idx t1 t2] quiet_gen quiet_git
      by (auto split: if_splits)
    then show ?thesis by (rule notify_ios_app_total)
  qed
  show ?thesis
    using part1 quiet part3 by (auto simp: notification_payload_def)
qed

theorem notification_after_publish_witness:
  "\<exists>pre post idx.
      snd (main example_world) = pre @ Log INFO MsgNotifying # post
    \<and> fst (git_commit_and_push example_world)
    \<and> Run git_push \<in> set pre \<and> Log INFO MsgPushed \<in> set pre
    \<and> fst (generate_pdf_index example_world) = Inr idx
    \<and> payload_totalDocuments (client_payload (notification_payload example_world idx))
         = totalDocuments (statistics idx)
    \<and> Log INFO (MsgPayloadTotal (totalDocuments (statistics idx))) \<in> set post
    \<and> Log INFO MsgNotifying \<notin> set (snd (main clean_world))
    \<and> Log INFO MsgNotifying \<notin> set (snd (main rejected_world))"
proof -
  obtain idx t1 where g: "generate_pdf_index example_world = (Inr idx, t1)"
    using example_generates by (cases "generate_pdf_index example_world") auto
  have git: "path_exists example_world [ustr ''.git'']"
    by (simp add: example_world_def)
  let ?pre = "[Log INFO MsgStarting, Log INFO MsgSeparator] @ t1
                @ snd (git_commit_and_push example_world)"
  obtain post where
    m: "snd (main example_world) = ?pre @ Log INFO MsgNotifying # post"
    and tot: "Log INFO (MsgPayloadTotal (totalDocuments (statistics idx))) \<in> set post"
    using main_published [OF git g example_published]
    by (simp add: example_published notify_ios_app_def log_message_def)
  have n: "is_notification (Log INFO MsgNotifying)"
    by (simp add: is_notification_def)
  note th = notification_after_publish [of example_world]
  have 1: "fst (git_commit_and_push example_world) \<and> Run git_push \<in> set ?pre
           \<and> Log INFO MsgPushed \<in> set ?pre"
    using th m n by blast
  have 2: "payload_totalDocuments (client_payload (notification_payload example_world idx))
         = totalDocuments (statistics idx)"
    using th g by simp
  have 3: "Log INFO MsgNotifying \<notin> set (snd (main clean_world))"
    using notification_after_publish [of clean_world] clean_not_published n by blast
  have 4: "Log INFO MsgNotifying \<notin> set (snd (main rejected_world))"
    using notification_after_publish [of rejected_world] rejected_not_published n by blast
  from m 1 2 3 4 g tot show ?thesis by (intro exI [of _ ?pre] exI [of _ post] exI [of _ idx]) simp
qed

section \<open>Publishing an unchanged tree\<close>

text \<open>
  Claim C8. When staging succeeds and the status query prints nothing but white space,
  the publish step logs that there are no changes and returns \<open>False\<close>; the only
  commands it has run are \<open>git add\<close> and \<open>git status\<close>, so no commit is created and no
  push is attempted.
\<close>

theorem no_changes_short_circuit:
  assumes "subprocess_run w [] git_add = Some r1" "returncode r1 = 0"
    and "subprocess_run w [git_add] git_status = Some r2" "strip (stdout r2) = []"
  shows "git_commit_and_push w =
           (False, [Log INFO MsgCommitting, Run git_add, Run git_status, Log INFO MsgNoChanges])
       \<and> (\<forall>argv. Run argv \<in> set (snd (git_commit_and_push w)) \<longrightarrow>
              argv = git_add \<or> argv = git_status)
       \<and> git_add \<noteq> git_commit w \<and> git_status \<noteq> git_commit w
       \<and> git_add \<noteq> git_push \<and> git_status \<noteq> git_push"
proof -
  have g: "git_commit_and_push w =
           (False, [Log INFO MsgCommitting, Run git_add, Run git_status, Log INFO MsgNoChanges])"
    using assms by (simp add: git_commit_and_push_def git_steps_def log_message_def)
  have d: "git_add \<noteq> git_commit w \<and> git_status \<noteq> git_commit w
       \<and> git_add \<noteq> git_push \<and> git_status \<noteq> git_push"
    by (simp add: git_add_def git_status_def git_commit_def git_push_def ustr_def)
  show ?thesis unfolding g using d by auto
qed

theorem no_changes_short_circuit_witness:
  "subprocess_run clean_world [] git_add = Some \<lparr>returncode = 0, stdout = [], stderr = []\<rparr>
   \<and> subprocess_run clean_world [git_add] git_status
       = Some \<lparr>returncode = 0, stdout = [], stderr = []\<rparr>
   \<and> strip [] = []
   \<and> git_commit_and_push clean_world =
        (False, [Log INFO MsgCommitting, Run git_add, Run git_status, Log INFO MsgNoChanges])
   \<and> Run (git_commit clean_world) \<notin> set (snd (git_commit_and_push clean_world))
   \<and> Run git_push \<notin> set (snd (git_commit_and_push clean_world))"
proof -
  let ?r = "\<lparr>returncode = 0, stdout = [], stderr = []\<rparr>"
  have a: "subprocess_run clean_world [] git_add = Some ?r"
    and b: "subprocess_run clean_world [git_add] git_status = Some ?r"
    by (simp_all add: clean_world_def)
  have c: "returncode ?r = 0" and d: "strip (stdout ?r) = []"
    by (simp_all add: strip_def)
  from no_changes_short_circuit [OF a c b d] a b d show ?thesis by auto
qed

section \<open>Categories named in the notification\<close>

text \<open>
  Claim C9. Whatever the catalog holds, the payload's \<open>updatedCategories\<close> is the
  configured list of the six categories, in configuration order.
\<close>

theorem updatedCategories_fixed:
  "payload_updatedCategories (client_payload (notification_payload w index_data)) = CATEGORIES
   \<and> CATEGORIES = [ustr ''protokoller'', ustr ''vedtekter'', saeravtale_bntf,
                    ustr ''hovedavtalen'', ustr ''overenskomsten'', ustr ''other'']
   \<and> length CATEGORIES = 6"
  by (simp add: notification_payload_def CATEGORIES_def)

section \<open>Documents of the catalog\<close>

lemma catalog_category:
  assumes "fst (generate_pdf_index w) = Inr idx" "c \<in> set CATEGORIES"
  shows "\<exists>ds. category_documents w c = Inr ds
            \<and> map_of (documents idx) c = Some ds
            \<and> map_of (categoryCounts (statistics idx)) c = Some (int (length ds))"
proof -
  from assms(1) obtain dss where
    m: "map (category_documents w) CATEGORIES = map Inr dss" and
    d: "documents idx = zip CATEGORIES dss" and
    k: "categoryCounts (statistics idx) = zip CATEGORIES (map (\<lambda>ds. int (length ds)) dss)"
    by (rule generate_pdf_index_Inr)
  have len: "length dss = length CATEGORIES"
    using arg_cong [OF m, of length] by simp
  from assms(2) obtain i where i: "i < length CATEGORIES" "CATEGORIES ! i = c"
    by (auto simp: in_set_conv_nth)
  have 1: "category_documents w c = Inr (dss ! i)"
    using arg_cong [OF m, of "\<lambda>xs. xs ! i"] i len by simp
  have 2: "map_of (zip CATEGORIES dss) c = Some (dss ! i)"
    using i len distinct_CATEGORIES by (metis map_of_zip_nth)
  have 3: "map_of (zip CATEGORIES (map (\<lambda>ds. int (length ds)) dss)) c
        = Some (map (\<lambda>ds. int (length ds)) dss ! i)"
    using i len distinct_CATEGORIES by (metis map_of_zip_nth length_map)
  show ?thesis using 1 2 3 i len by (simp add: d k)
qed

lemma catalog_keys:
  assumes "fst (generate_pdf_index w) = Inr idx" "map_of (documents idx) c = Some docs"
  shows "c \<in> set CATEGORIES"
proof -
  from assms(1) obtain dss where
    d: "documents idx = zip CATEGORIES dss"
    by (rule generate_pdf_index_Inr)
  from assms(2) have "(c, docs) \<in> set (zip CATEGORIES dss)"
    unfolding d by (rule map_of_SomeD)
  then show ?thesis by (rule set_zip_leftD)
qed

lemma category_documents_Inr:
  assumes "category_documents w c = Inr ds"
  shows "list_all2 (\<lambda>p d. file_document w c p = Inr d) (category_files w c) ds"
proof -
  have "map (file_document w c) (category_files w c) = map Inr ds"
    using assms by (simp add: category_documents_def sequence_Inr_iff)
  then show ?thesis
    by (simp add: list_all2_conv_all_nth map_equality_iff)
qed

lemma category_files_missing:
  "\<not> (path_exists w [c] \<and> path_is_dir w [c]) \<Longrightarrow> category_files w c = []"
  by (auto simp: category_files_def)

lemma no_directories:
  assumes "\<forall>c \<in> set CATEGORIES. \<not> (path_exists w [c] \<and> path_is_dir w [c])"
    and "can_write w (ustr ''pdf-index.json'')"
  shows "\<exists>idx. fst (generate_pdf_index w) = Inr idx
           \<and> documents idx = map (\<lambda>c. (c, [])) CATEGORIES
           \<and> totalDocuments (statistics idx) = 0 \<and> totalSize (statistics idx) = 0"
proof -
  have "map (category_documents w) CATEGORIES = map Inr (map (\<lambda>c. []) CATEGORIES)"
    using assms(1) by (simp add: category_documents_def category_files_missing)
  then have s: "sequence (map (category_documents w) CATEGORIES)
                 = Inr (map (\<lambda>c. []) CATEGORIES)"
    by (simp only: sequence_map_Inr)
  have e: "concat (map (\<lambda>c. []) CATEGORIES) = ([] :: document list)"
    by simp
  show ?thesis
    using assms(2) s by (simp add: generate_pdf_index_fst zip_map2 zip_same_conv_map e)
qed

lemma make_document_fields:
  assumes "make_document c p fi = Inr d"
  shows "file_id c (path_name p) = Inr (doc_id d)"
    and "doc_name d = path_stem p"
    and "doc_filename d = path_name p"
    and "\<exists>q. quote (path_name p) = Inr q \<and> doc_url d = BASE_URL @ ustr ''/'' @ c @ ustr ''/'' @ q"
    and "doc_category d = c"
    and "doc_size d = info_size fi"
    and "doc_modified d = info_modified fi"
    and "doc_hash d = info_hash fi"
  using assms by (auto simp: make_document_def split: sum.splits)

lemma category_documents_filenames:
  assumes "category_documents w c = Inr ds"
  shows "map doc_filename ds = map path_name (category_files w c)"
    and "map doc_name ds = map path_stem (category_files w c)"
proof -
  have l: "list_all2 (\<lambda>p d. file_document w c p = Inr d) (category_files w c) ds"
    using assms by (rule category_documents_Inr)
  then have "list_all2 (\<lambda>p d. doc_filename d = path_name p \<and> doc_name d = path_stem p)
               (category_files w c) ds"
    by (rule list_all2_mono) (auto simp: file_document_def dest: make_document_fields)
  then show "map doc_filename ds = map path_name (category_files w c)"
    and "map doc_name ds = map path_stem (category_files w c)"
    by (simp_all add: list_all2_conv_all_nth list_eq_iff_nth_eq)
qed

lemma sorted_names:
  "sorted (map path_name (sort (map (\<lambda>n. [c] @ [n]) ns)))"
proof -
  let ?ps = "sort (map (\<lambda>n. [c] @ [n]) ns)"
  have s: "sorted_wrt (\<le>) ?ps" by simp
  have "sorted_wrt (\<lambda>x y. path_name x \<le> path_name y) ?ps"
  proof (rule sorted_wrt_mono_rel [OF _ s])
    fix x y
    assume "x \<in> set ?ps" "y \<in> set ?ps" "x \<le> y"
    then show "path_name x \<le> path_name y"
      by (auto simp: path_name_def)
  qed
  then show ?thesis by (simp add: sorted_wrt_map)
qed

lemma category_files_sorted: "sorted (map path_name (category_files w c))"
  by (simp add: category_files_def glob_pdf_def sorted_names [simplified] del: sorted_wrt_map)

lemma sort_three:
  assumes "distinct xs" "set xs = {a, b, c}" "a < b" "b < c"
  shows "sort xs = [a, b, (c :: 'a :: linorder)]"
proof -
  have "sorted [a, b, c] \<and> distinct [a, b, c]"
    using assms(3,4) by auto
  moreover have "sorted (sort xs) \<and> distinct (sort xs)"
    using assms(1) by simp
  moreover have "set (sort xs) = set [a, b, c]"
    using assms(2) by simp
  ultimately show ?thesis
    by (intro sorted_distinct_set_unique) simp_all
qed

lemma get_file_info_failed:
  "metadata_raises w p \<Longrightarrow>
     get_file_info w p = (file_info_failed, [Log ERROR (MsgFileInfoError p)])"
  by (auto simp: metadata_raises_def get_file_info_def log_message_def split: option.splits)



lemma category_documents_sizes:
  assumes "category_documents w c = Inr ds"
  shows "map doc_size ds = map (\<lambda>q. info_size (fst (get_file_info w q))) (category_files w c)"
proof -
  have "list_all2 (\<lambda>p d. file_document w c p = Inr d) (category_files w c) ds"
    using assms by (rule category_documents_Inr)
  then have "list_all2 (\<lambda>p d. doc_size d = info_size (fst (get_file_info w p)))
               (category_files w c) ds"
    by (rule list_all2_mono) (auto simp: file_document_def dest: make_document_fields)
  then show ?thesis
    by (simp add: list_all2_conv_all_nth list_eq_iff_nth_eq)
qed

lemma concat_related:
  "list_all2 (\<lambda>c ds. map g ds = map f (h c)) cs dss \<Longrightarrow>
     map g (concat dss) = map f (concat (map h cs))"
  by (induction rule: list_all2_induct) simp_all

lemma catalog_totals:
  assumes "fst (generate_pdf_index w) = Inr idx"
  shows "totalDocuments (statistics idx)
           = int (length (concat (map (category_files w) CATEGORIES)))"
    and "totalSize (statistics idx)
           = sum_list (map (\<lambda>q. info_size (fst (get_file_info w q)))
                         (concat (map (category_files w) CATEGORIES)))"
proof -
  from assms obtain dss where
    m: "map (category_documents w) CATEGORIES = map Inr dss" and
    td: "totalDocuments (statistics idx) = int (length (concat dss))" and
    ts: "totalSize (statistics idx) = sum_list (map doc_size (concat dss))"
    by (rule generate_pdf_index_Inr)
  have "list_all2 (\<lambda>c ds. category_documents w c = Inr ds) CATEGORIES dss"
    using m by (simp add: list_all2_conv_all_nth map_equality_iff)
  then have "list_all2
      (\<lambda>c ds. map doc_size ds
                 = map (\<lambda>q. info_size (fst (get_file_info w q))) (category_files w c))
      CATEGORIES dss"
    by (rule list_all2_mono) (rule category_documents_sizes)
  then have e: "map doc_size (concat dss)
      = map (\<lambda>q. info_size (fst (get_file_info w q)))
          (concat (map (category_files w) CATEGORIES))"
    by (rule concat_related)
  show "totalSize (statistics idx)
           = sum_list (map (\<lambda>q. info_size (fst (get_file_info w q)))
                         (concat (map (category_files w) CATEGORIES)))"
    using ts e by simp
  show "totalDocuments (statistics idx)
           = int (length (concat (map (category_files w) CATEGORIES)))"
    using td arg_cong [OF e, of length] by simp
qed

lemma length_md5_digest: "length (md5_digest m) = 16"
  by (cases "foldl md5_block md5_init (chunks 64 (md5_pad m))")
    (simp add: md5_digest_def le_bytes32_def)

lemma length_concat_hex: "length (concat (map hex_byte bs)) = 2 * length bs"
  by (induction bs) (simp_all add: hex_byte_def)

lemma length_md5_hexdigest: "length (md5_hexdigest m) = 32"
  by (simp add: md5_hexdigest_def length_concat_hex length_md5_digest)

lemma hex_lower_digit: "hex_lower n \<in> set (ustr ''0123456789abcdef'')"
proof -
  have "n mod 16 < length (ustr ''0123456789abcdef'')"
    by (simp add: ustr_def)
  then show ?thesis
    unfolding hex_lower_def by (rule nth_mem)
qed

lemma md5_hexdigest_digits: "set (md5_hexdigest m) \<subseteq> set (ustr ''0123456789abcdef'')"
  using hex_lower_digit by (auto simp: md5_hexdigest_def hex_byte_def)

lemma get_file_info_cong:
  "os_stat w' = os_stat w \<Longrightarrow> read_bytes w' = read_bytes w \<Longrightarrow>
     get_file_info w' p = get_file_info w p"
  by (simp add: get_file_info_def split: option.splits)

lemma category_documents_cong:
  assumes "path_exists w' = path_exists w" "path_is_dir w' = path_is_dir w"
    "scandir w' = scandir w" "os_stat w' = os_stat w" "read_bytes w' = read_bytes w"
  shows "category_documents w' c = category_documents w c"
proof -
  have f: "category_files w' c = category_files w c"
    using assms(1-3) by (simp add: category_files_def glob_pdf_def)
  have d: "file_document w' c = file_document w c"
    using get_file_info_cong [OF assms(4,5)] by (simp add: file_document_def fun_eq_iff)
  show ?thesis by (simp add: category_documents_def f d)
qed

section \<open>More facts of the example run\<close>

lemma example_b_raises:
  "metadata_raises example_world [ustr ''vedtekter'', ustr ''b.pdf'']"
  by (simp add: metadata_raises_def example_world_def)

lemma example_categories:
  "ustr ''vedtekter'' \<in> set CATEGORIES" "ustr ''protokoller'' \<in> set CATEGORIES"
  by (simp_all add: CATEGORIES_def)

lemma example_vedtekter_listing:
  "path_exists example_world [ustr ''vedtekter'']"
  "path_is_dir example_world [ustr ''vedtekter'']"
  "distinct (scandir example_world [ustr ''vedtekter''])"
  "filter (\<lambda>n. endswith n (ustr ''.pdf'')) (scandir example_world [ustr ''vedtekter''])
     = [ustr ''c.pdf'', ustr ''a.pdf'', ustr ''b.pdf'']"
  by (simp_all add: example_world_def endswith_def ustr_def)

lemma example_id_a:
  "file_id (ustr ''vedtekter'') (ustr ''a.pdf'')
     = Inr (take 12 (md5_hexdigest
              [0x76, 0x65, 0x64, 0x74, 0x65, 0x6B, 0x74, 0x65, 0x72, 0x5F,
               0x61, 0x2E, 0x70, 0x64, 0x66]))"
  by (simp add: file_id_def ustr_def utf8_char_def)

section \<open>Unreadable metadata\<close>



section \<open>Missing category directories\<close>

text \<open>
  Claim C5. For a configured category whose path does not exist or is not a directory,
  the scan of that category raises nothing, logs nothing, returns an empty document list
  and leaves \<open>total_documents\<close> and \<open>total_size\<close> as they were; in every catalog
  generated, the category has the empty document list and the count 0.
\<close>

theorem missing_directory:
  assumes "c \<in> set CATEGORIES" "\<not> (path_exists w [c] \<and> path_is_dir w [c])"
  shows "scan_category w c (total_documents, total_size)
           = (Inr ([], total_documents, total_size), [])
       \<and> (\<forall>idx. fst (generate_pdf_index w) = Inr idx \<longrightarrow>
              map_of (documents idx) c = Some []
            \<and> map_of (categoryCounts (statistics idx)) c = Some 0)"
proof -
  have 1: "scan_category w c (total_documents, total_size)
           = (Inr ([], total_documents, total_size), [])"
    using assms(2) by (auto simp: scan_category_def)
  have e: "category_documents w c = Inr []"
    using assms(2) by (simp add: category_documents_def category_files_missing)
  have 2: "map_of (documents idx) c = Some []
            \<and> map_of (categoryCounts (statistics idx)) c = Some 0"
    if "fst (generate_pdf_index w) = Inr idx" for idx
    using catalog_category [OF that assms(1)] e by auto
  from 1 2 show ?thesis by blast
qed

theorem missing_directory_witness:
  "ustr ''protokoller'' \<in> set CATEGORIES
   \<and> \<not> path_exists example_world [ustr ''protokoller'']
   \<and> scan_category example_world (ustr ''protokoller'') (3, 14) = (Inr ([], 3, 14), [])
   \<and> (\<exists>idx. fst (generate_pdf_index example_world) = Inr idx
          \<and> map_of (documents idx) (ustr ''protokoller'') = Some []
          \<and> map_of (categoryCounts (statistics idx)) (ustr ''protokoller'') = Some 0)"
proof -
  have n: "\<not> path_exists example_world [ustr ''protokoller'']"
    by (simp add: example_world_def ustr_def)
  then have "\<not> (path_exists example_world [ustr ''protokoller'']
                 \<and> path_is_dir example_world [ustr ''protokoller''])"
    by simp
  note th = missing_directory [OF example_categories(2) this]
  from example_generates obtain idx where
    g: "fst (generate_pdf_index example_world) = Inr idx" ..
  from th [of 3 14] g n example_categories(2) show ?thesis by blast
qed

section \<open>Identifiers\<close>

text \<open>
  Claim C6. Every category and file name that can be encoded have an identifier, the
  first 12 characters of the MD5 hex digest of the UTF-8 encoding of
  \<open>category_filename\<close>: 12 lower-case hexadecimal digits. Every
  document of a catalog has the identifier of its own category and file name. Two
  worlds with the same file system give the same result of catalog generation, up to
  \<open>lastUpdated\<close>: the same exception, or catalogs that differ in \<open>lastUpdated\<close> only.
\<close>

theorem identifier_deterministic:
  "(encodable c \<and> encodable n \<longrightarrow> (\<exists>j. file_id c n = Inr j))
   \<and> (file_id c n = Inr i \<longrightarrow>
       length i = 12 \<and> set i \<subseteq> set (ustr ''0123456789abcdef'')
     \<and> (\<exists>bs. encode (c @ ustr ''_'' @ n) = Inr bs \<and> i = take 12 (md5_hexdigest bs)))
   \<and> (\<forall>idx docs. fst (generate_pdf_index w) = Inr idx \<and> map_of (documents idx) c = Some docs
         \<longrightarrow> (\<forall>d \<in> set docs. doc_category d = c
                  \<and> file_id (doc_category d) (doc_filename d) = Inr (doc_id d)))
   \<and> (path_exists w' = path_exists w \<and> path_is_dir w' = path_is_dir w
        \<and> scandir w' = scandir w \<and> os_stat w' = os_stat w \<and> read_bytes w' = read_bytes w
        \<and> can_write w' = can_write w
      \<longrightarrow> fst (generate_pdf_index w')
            = (case fst (generate_pdf_index w) of
                 Inl e \<Rightarrow> Inl e
               | Inr idx \<Rightarrow> Inr (idx\<lparr>lastUpdated := utcnow_stamp w'\<rparr>)))"
proof -
  have 0: "\<exists>j. file_id c n = Inr j" if "encodable c \<and> encodable n"
  proof -
    have "encodable (c @ ustr ''_'' @ n)"
      using that by (simp add: encodable_append) (simp add: encodable_def encode_underscore)
    then show ?thesis
      by (simp add: encodable_def file_id_def split: sum.splits)
  qed
  have 1: "length i = 12 \<and> set i \<subseteq> set (ustr ''0123456789abcdef'')
     \<and> (\<exists>bs. encode (c @ ustr ''_'' @ n) = Inr bs \<and> i = take 12 (md5_hexdigest bs))"
    if "file_id c n = Inr i"
  proof -
    from that obtain bs where
      bs: "encode (c @ ustr ''_'' @ n) = Inr bs" "i = take 12 (md5_hexdigest bs)"
      by (auto simp: file_id_def split: sum.splits)
    have "length i = 12"
      using bs(2) by (simp add: length_md5_hexdigest)
    moreover have "set i \<subseteq> set (ustr ''0123456789abcdef'')"
      using bs(2) md5_hexdigest_digits [of bs] set_take_subset [of 12 "md5_hexdigest bs"]
      by blast
    ultimately show ?thesis using bs by blast
  qed
  have 2: "doc_category d = c \<and> file_id (doc_category d) (doc_filename d) = Inr (doc_id d)"
    if g: "fst (generate_pdf_index w) = Inr idx" and m: "map_of (documents idx) c = Some docs"
      and d: "d \<in> set docs" for idx docs d
  proof -
    have c: "c \<in> set CATEGORIES" using g m by (rule catalog_keys)
    from catalog_category [OF g c] m have "category_documents w c = Inr docs" by auto
    from category_documents_Inr [OF this] d
    obtain p where "file_document w c p = Inr d"
      by (auto simp: list_all2_conv_all_nth in_set_conv_nth)
    then have "make_document c p (fst (get_file_info w p)) = Inr d"
      by (simp add: file_document_def)
    from make_document_fields [OF this] show ?thesis by simp
  qed
  have 3: "fst (generate_pdf_index w')
            = (case fst (generate_pdf_index w) of
                 Inl e \<Rightarrow> Inl e
               | Inr idx \<Rightarrow> Inr (idx\<lparr>lastUpdated := utcnow_stamp w'\<rparr>))"
    if "path_exists w' = path_exists w \<and> path_is_dir w' = path_is_dir w
        \<and> scandir w' = scandir w \<and> os_stat w' = os_stat w \<and> read_bytes w' = read_bytes w
        \<and> can_write w' = can_write w"
  proof -
    have "category_documents w' = category_documents w"
      using that category_documents_cong [of w' w] by (simp add: fun_eq_iff)
    with that show ?thesis
      by (simp add: generate_pdf_index_fst split: sum.splits)
  qed
  from 0 1 2 3 show ?thesis by blast
qed

theorem identifier_deterministic_witness:
  "(\<exists>j. file_id (ustr ''vedtekter'') (ustr ''a.pdf'') = Inr j)
   \<and> length (take 12 (md5_hexdigest
              [0x76, 0x65, 0x64, 0x74, 0x65, 0x6B, 0x74, 0x65, 0x72, 0x5F,
               0x61, 0x2E, 0x70, 0x64, 0x66 :: byte])) = 12
   \<and> (\<exists>idx docs d.
         fst (generate_pdf_index example_world) = Inr idx
       \<and> map_of (documents idx) (ustr ''vedtekter'') = Some docs
       \<and> d \<in> set docs
       \<and> file_id (ustr ''vedtekter'') (doc_filename d) = Inr (doc_id d)
       \<and> fst (generate_pdf_index (example_world\<lparr>utcnow_stamp := ustr ''2031-01-01T00:00:00Z''\<rparr>))
           = Inr (idx\<lparr>lastUpdated := ustr ''2031-01-01T00:00:00Z''\<rparr>))"
proof -
  let ?v = "ustr ''vedtekter''"
  let ?w' = "example_world\<lparr>utcnow_stamp := ustr ''2031-01-01T00:00:00Z''\<rparr>"
  note th = identifier_deterministic [of ?v "ustr ''a.pdf''" _ example_world ?w']
  have 1: "length (take 12 (md5_hexdigest
              [0x76, 0x65, 0x64, 0x74, 0x65, 0x6B, 0x74, 0x65, 0x72, 0x5F,
               0x61, 0x2E, 0x70, 0x64, 0x66 :: byte])) = 12"
    using th [THEN conjunct2, THEN conjunct1, THEN mp, OF example_id_a] by (elim conjE)
  have "encodable (ustr ''vedtekter'') \<and> encodable (ustr ''a.pdf'')"
    by (simp add: encodable_def ustr_def utf8_char_def)
  from th [THEN conjunct1, THEN mp, OF this]
  obtain j where 0: "file_id (ustr ''vedtekter'') (ustr ''a.pdf'') = Inr j" ..
  from example_generates obtain idx where
    g: "fst (generate_pdf_index example_world) = Inr idx" ..
  from catalog_category [OF g example_categories(1)] obtain docs where
    docs: "category_documents example_world ?v = Inr docs"
      "map_of (documents idx) ?v = Some docs"
    by (elim exE conjE)
  have "length docs = 3"
    using arg_cong [OF category_documents_filenames(1) [OF docs(1)], of length]
    by (simp add: example_files)
  then obtain d where d: "d \<in> set docs"
    by (cases docs) auto
  have "doc_category d = ?v \<and> file_id (doc_category d) (doc_filename d) = Inr (doc_id d)"
    using th [THEN conjunct2, THEN conjunct2, THEN conjunct1, THEN spec, THEN spec, THEN mp,
              OF conjI [OF g docs(2)], THEN bspec, OF d] .
  then have 2: "file_id ?v (doc_filename d) = Inr (doc_id d)"
    by (elim conjE) (simp only:)
  have same: "path_exists ?w' = path_exists example_world
        \<and> path_is_dir ?w' = path_is_dir example_world
        \<and> scandir ?w' = scandir example_world \<and> os_stat ?w' = os_stat example_world
        \<and> read_bytes ?w' = read_bytes example_world
        \<and> can_write ?w' = can_write example_world"
    by simp
  have 3: "fst (generate_pdf_index ?w') = Inr (idx\<lparr>lastUpdated := ustr ''2031-01-01T00:00:00Z''\<rparr>)"
    using th [THEN conjunct2, THEN conjunct2, THEN conjunct2, THEN mp, OF same] g by simp
  from 0 1 g docs(2) d 2 3 show ?thesis by (intro conjI exI)
qed

section \<open>Order of the documents\<close>

text \<open>
  Claim C7. In every catalog generated, the file names of the documents of each
  category are in ascending lexicographic order. When the directory \<open>vedtekter\<close>
  holds exactly the PDF files \<open>a.pdf\<close>, \<open>b.pdf\<close> and \<open>c.pdf\<close>, listed in any order,
  the names of its documents are \<open>a\<close>, \<open>b\<close>, \<open>c\<close>, in this order.
\<close>

theorem documents_sorted:
  assumes "fst (generate_pdf_index w) = Inr idx"
  shows "(\<forall>c docs. map_of (documents idx) c = Some docs \<longrightarrow> sorted (map doc_filename docs))
       \<and> (path_exists w [ustr ''vedtekter''] \<and> path_is_dir w [ustr ''vedtekter'']
          \<and> distinct (scandir w [ustr ''vedtekter''])
          \<and> set (filter (\<lambda>n. endswith n (ustr ''.pdf'')) (scandir w [ustr ''vedtekter'']))
              = {ustr ''a.pdf'', ustr ''b.pdf'', ustr ''c.pdf''}
          \<longrightarrow> (\<exists>docs. map_of (documents idx) (ustr ''vedtekter'') = Some docs
                     \<and> map doc_name docs = [ustr ''a'', ustr ''b'', ustr ''c'']))"
proof -
  have 1: "sorted (map doc_filename docs)" if m: "map_of (documents idx) c = Some docs"
    for c docs
  proof -
    have c: "c \<in> set CATEGORIES" using assms m by (rule catalog_keys)
    from catalog_category [OF assms c] m
    have "category_documents w c = Inr docs" by auto
    from category_documents_filenames(1) [OF this] category_files_sorted [of w c]
    show ?thesis by simp
  qed
  have 2: "\<exists>docs. map_of (documents idx) (ustr ''vedtekter'') = Some docs
                     \<and> map doc_name docs = [ustr ''a'', ustr ''b'', ustr ''c'']"
    if d: "path_exists w [ustr ''vedtekter''] \<and> path_is_dir w [ustr ''vedtekter'']"
      and dist: "distinct (scandir w [ustr ''vedtekter''])"
      and files: "set (filter (\<lambda>n. endswith n (ustr ''.pdf'')) (scandir w [ustr ''vedtekter'']))
              = {ustr ''a.pdf'', ustr ''b.pdf'', ustr ''c.pdf''}"
  proof -
    let ?v = "ustr ''vedtekter''"
    let ?f = "\<lambda>n. [?v] @ [n]"
    have c: "?v \<in> set CATEGORIES" by (simp add: CATEGORIES_def)
    from catalog_category [OF assms c] obtain docs where
      docs: "category_documents w ?v = Inr docs" "map_of (documents idx) ?v = Some docs"
      by auto
    have inj: "inj ?f" by (simp add: inj_on_def)
    have g1: "distinct (glob_pdf w [?v])"
      using dist by (simp add: glob_pdf_def distinct_map inj_on_def)
    have g2: "set (glob_pdf w [?v]) = {?f (ustr ''a.pdf''), ?f (ustr ''b.pdf''), ?f (ustr ''c.pdf'')}"
      using arg_cong [OF files, of "\<lambda>S. ?f ` S"] by (simp add: glob_pdf_def)
    have lt: "?f (ustr ''a.pdf'') < ?f (ustr ''b.pdf'')" "?f (ustr ''b.pdf'') < ?f (ustr ''c.pdf'')"
      by (simp_all add: ustr_def)
    have "category_files w ?v = [?f (ustr ''a.pdf''), ?f (ustr ''b.pdf''), ?f (ustr ''c.pdf'')]"
      using d sort_three [OF g1 g2 lt] by (simp add: category_files_def)
    with category_documents_filenames(2) [OF docs(1)]
    have "map doc_name docs = [ustr ''a'', ustr ''b'', ustr ''c'']"
      by (simp add: path_stem_def path_name_def ustr_def)
    with docs(2) show ?thesis by (intro exI conjI)
  qed
  from 1 2 show ?thesis by blast
qed

theorem documents_sorted_witness:
  "\<exists>idx docs. fst (generate_pdf_index example_world) = Inr idx
      \<and> scandir example_world [ustr ''vedtekter'']
          = [ustr ''c.pdf'', ustr ''a.pdf'', ustr ''README.md'', ustr ''b.pdf'']
      \<and> map_of (documents idx) (ustr ''vedtekter'') = Some docs
      \<and> sorted (map doc_filename docs)
      \<and> map doc_name docs = [ustr ''a'', ustr ''b'', ustr ''c'']"
proof -
  from example_generates obtain idx where
    g: "fst (generate_pdf_index example_world) = Inr idx" ..
  note th = documents_sorted [OF g]
  have s: "scandir example_world [ustr ''vedtekter'']
          = [ustr ''c.pdf'', ustr ''a.pdf'', ustr ''README.md'', ustr ''b.pdf'']"
    by (simp add: example_world_def)
  have "set (filter (\<lambda>n. endswith n (ustr ''.pdf''))
                  (scandir example_world [ustr ''vedtekter'']))
            = {ustr ''a.pdf'', ustr ''b.pdf'', ustr ''c.pdf''}"
    unfolding example_vedtekter_listing(4) by (simp add: insert_commute)
  with example_vedtekter_listing(1-3)
  have h: "path_exists example_world [ustr ''vedtekter'']
         \<and> path_is_dir example_world [ustr ''vedtekter'']
         \<and> distinct (scandir example_world [ustr ''vedtekter''])
         \<and> set (filter (\<lambda>n. endswith n (ustr ''.pdf''))
                  (scandir example_world [ustr ''vedtekter'']))
            = {ustr ''a.pdf'', ustr ''b.pdf'', ustr ''c.pdf''}"
    by (intro conjI)
  from th [THEN conjunct2, THEN mp, OF h] obtain docs where
    docs: "map_of (documents idx) (ustr ''vedtekter'') = Some docs"
      "map doc_name docs = [ustr ''a'', ustr ''b'', ustr ''c'']"
    by (elim exE conjE)
  from th [THEN conjunct1, THEN spec, THEN spec, THEN mp, OF docs(1)]
  have "sorted (map doc_filename docs)" .
  with g s docs show ?thesis by (intro exI conjI)
qed

section \<open>Counting a file with unreadable metadata\<close>

text \<open>
  Claim C10. When the metadata of a file cannot be read, the loop goes on with one more
  document, \<open>total_documents\<close> one higher and both sizes unchanged. The identifier,
  name, file name and URL of a document are derived from the category and the path
  alone, whatever the file information. In every catalog generated, the count of a
  category is the number of its PDF files, \<open>totalDocuments\<close> is the number of all PDF
  files, and \<open>totalSize\<close> is the sum of the sizes that \<open>get_file_info\<close> returns, which
  is 0 for a file whose metadata cannot be read.
\<close>

theorem failed_file_counted:
  "(metadata_raises w p \<and> make_document c p file_info_failed = Inr d \<longrightarrow>
       scan_files w c (p # rest) (docs, category_size, total_documents, total_size)
         = (case scan_files w c rest
                   (docs @ [d], category_size + 0, total_documents + 1, total_size + 0) of
              (r, t) \<Rightarrow> (r, Log ERROR (MsgFileInfoError p) # t))
     \<and> doc_size d = 0)
   \<and> (make_document c p fi = Inr d \<longrightarrow>
         file_id c (path_name p) = Inr (doc_id d)
       \<and> doc_name d = path_stem p
       \<and> doc_filename d = path_name p
       \<and> (\<exists>q. quote (path_name p) = Inr q
              \<and> doc_url d = BASE_URL @ ustr ''/'' @ c @ ustr ''/'' @ q))
   \<and> (metadata_raises w p \<longrightarrow> info_size (fst (get_file_info w p)) = 0)
   \<and> (\<forall>idx. fst (generate_pdf_index w) = Inr idx \<longrightarrow>
         (\<forall>k \<in> set CATEGORIES.
            map_of (categoryCounts (statistics idx)) k
              = Some (int (length (category_files w k))))
       \<and> totalDocuments (statistics idx)
           = int (length (concat (map (category_files w) CATEGORIES)))
       \<and> totalSize (statistics idx)
           = sum_list (map (\<lambda>q. info_size (fst (get_file_info w q)))
                         (concat (map (category_files w) CATEGORIES))))"
proof -
  have 1: "scan_files w c (p # rest) (docs, category_size, total_documents, total_size)
         = (case scan_files w c rest
                   (docs @ [d], category_size + 0, total_documents + 1, total_size + 0) of
              (r, t) \<Rightarrow> (r, Log ERROR (MsgFileInfoError p) # t))
     \<and> doc_size d = 0"
    if "metadata_raises w p" "make_document c p file_info_failed = Inr d"
    using that make_document_fields(6) [OF that(2)]
    by (simp add: get_file_info_failed file_info_failed_def)
  have 2: "file_id c (path_name p) = Inr (doc_id d)
       \<and> doc_name d = path_stem p
       \<and> doc_filename d = path_name p
       \<and> (\<exists>q. quote (path_name p) = Inr q
              \<and> doc_url d = BASE_URL @ ustr ''/'' @ c @ ustr ''/'' @ q)"
    if "make_document c p fi = Inr d"
    using make_document_fields [OF that] by simp
  have 3: "info_size (fst (get_file_info w p)) = 0" if "metadata_raises w p"
    using that by (simp add: get_file_info_failed file_info_failed_def)
  have 4: "map_of (categoryCounts (statistics idx)) k
              = Some (int (length (category_files w k)))"
    if g: "fst (generate_pdf_index w) = Inr idx" and k: "k \<in> set CATEGORIES" for idx k
  proof -
    from catalog_category [OF g k] obtain ds where
      ds: "category_documents w k = Inr ds"
        "map_of (categoryCounts (statistics idx)) k = Some (int (length ds))"
      by auto
    have "length ds = length (category_files w k)"
      using category_documents_Inr [OF ds(1)] by (simp add: list_all2_lengthD)
    with ds(2) show ?thesis by simp
  qed
  from 1 2 3 4 catalog_totals show ?thesis by blast
qed

theorem failed_file_counted_witness:
  "\<exists>d idx.
      make_document (ustr ''vedtekter'') [ustr ''vedtekter'', ustr ''b.pdf''] file_info_failed
        = Inr d
    \<and> scan_files example_world (ustr ''vedtekter'') [[ustr ''vedtekter'', ustr ''b.pdf'']]
         ([], 0, 0, 0)
        = (Inr ([d], 0, 1, 0),
           [Log ERROR (MsgFileInfoError [ustr ''vedtekter'', ustr ''b.pdf''])])
    \<and> doc_size d = 0
    \<and> info_size (fst (get_file_info example_world [ustr ''vedtekter'', ustr ''b.pdf''])) = 0
    \<and> file_id (ustr ''vedtekter'') (ustr ''b.pdf'') = Inr (doc_id d)
    \<and> doc_name d = ustr ''b'' \<and> doc_filename d = ustr ''b.pdf''
    \<and> fst (generate_pdf_index example_world) = Inr idx
    \<and> map_of (categoryCounts (statistics idx)) (ustr ''vedtekter'') = Some 3
    \<and> totalDocuments (statistics idx) = 4
    \<and> totalSize (statistics idx) = 21"
proof -
  let ?v = "ustr ''vedtekter''"
  let ?pb = "[ustr ''vedtekter'', ustr ''b.pdf'']"
  have "encodable ?v \<and> encodable (path_name ?pb)"
    by (simp add: encodable_def path_name_def ustr_def utf8_char_def)
  then obtain d where d: "make_document ?v ?pb file_info_failed = Inr d"
    using file_document_Inr_iff [of example_world ?v ?pb]
    by (auto simp: file_document_def get_file_info_failed [OF example_b_raises])
  from example_generates obtain idx where
    g: "fst (generate_pdf_index example_world) = Inr idx" ..
  note th = failed_file_counted [of example_world ?pb ?v d "[]" "[]" 0 0 0 file_info_failed]
  have 1: "scan_files example_world ?v [?pb] ([], 0, 0, 0)
        = (Inr ([d], 0, 1, 0), [Log ERROR (MsgFileInfoError ?pb)])"
    and z: "doc_size d = 0"
    using th [THEN conjunct1, THEN mp, OF conjI [OF example_b_raises d]] by simp_all
  have n: "path_name ?pb = ustr ''b.pdf''" "path_stem ?pb = ustr ''b''"
    by (simp_all add: path_name_def path_stem_def ustr_def)
  note f = th [THEN conjunct2, THEN conjunct1, THEN mp, OF d, unfolded n]
  have 2: "file_id ?v (ustr ''b.pdf'') = Inr (doc_id d)"
    using f by (elim conjE)
  have nm: "doc_name d = ustr ''b''"
    using f by (elim conjE)
  have fn: "doc_filename d = ustr ''b.pdf''"
    using f by (elim conjE)
  have zero: "info_size (fst (get_file_info example_world ?pb)) = 0"
    using th [THEN conjunct2, THEN conjunct2, THEN conjunct1, THEN mp, OF example_b_raises] .
  note cat = th [THEN conjunct2, THEN conjunct2, THEN conjunct2, THEN spec, THEN mp, OF g]
  have 3: "map_of (categoryCounts (statistics idx)) ?v = Some 3"
    using cat [THEN conjunct1, THEN bspec, OF example_categories(1)]
    by (simp add: example_files)
  have files: "concat (map (category_files example_world) CATEGORIES)
      = [[ustr ''vedtekter'', ustr ''a.pdf''], ?pb, [ustr ''vedtekter'', ustr ''c.pdf''],
         [ustr ''other'', ustr ''x y.pdf'']]"
    by (simp add: CATEGORIES_def example_files)
  have 4: "totalDocuments (statistics idx) = 4"
    using cat [THEN conjunct2, THEN conjunct1] unfolding files by simp
  have sizes: "map (\<lambda>q. info_size (fst (get_file_info example_world q)))
        [[ustr ''vedtekter'', ustr ''a.pdf''], ?pb, [ustr ''vedtekter'', ustr ''c.pdf''],
         [ustr ''other'', ustr ''x y.pdf'']] = [7, 0, 7, 7]"
    by (simp add: get_file_info_def example_world_def file_info_failed_def ustr_def)
  have 5: "totalSize (statistics idx) = 21"
    using cat [THEN conjunct2, THEN conjunct2] unfolding files sizes by simp
  from d 1 z zero 2 nm fn g 3 4 5 show ?thesis by (intro exI conjI)
qed

end
